theory Spec2Isabelle
  imports Complex_Main "HOL-Library.Word" "HOL-Library.AList"
begin

section \<open>The agent monitor of everoute (pkg/monitor/agent.go)\<close>

text \<open>
  The agent monitor mirrors the local switch database, keeps a cache of learned
  addresses and publishes an AgentInfo record. The Go code is embedded function by
  function. Go maps are association lists: the order of a list is the order in
  which the runtime enumerates the map, a lookup is \<open>map_of\<close>, an assignment
  \<open>m[k] = v\<close> is \<open>AList.update k v\<close>. Maps that the code shares between
  objects (the address maps of the IP cache, which a built interface points to)
  live in a store of map objects and are named by their address.
\<close>

subsection \<open>Column values and rows of the database cache\<close>

text \<open>JSON numbers reach the cache as float64; every such value is a finite rational.\<close>

type_synonym float64 = rat

text \<open>
  A column value is a Go \<open>interface{}\<close>: nil (also what a missing column reads as),
  a string, a float64, a bool, an \<open>ovsdb.UUID\<close>, an \<open>ovsdb.OvsSet\<close> (field GoSet)
  or an \<open>ovsdb.OvsMap\<close> (field GoMap).
\<close>

datatype ovs_value =
    VNil
  | VString string
  | VFloat64 float64
  | VBool bool
  | UUID string
  | OvsSet "ovs_value list"
  | OvsMap "(ovs_value \<times> ovs_value) list"

datatype Row = Row (Fields: "string \<Rightarrow> ovs_value option")

text \<open>\<open>row.Fields[name]\<close>: nil when the column is missing.\<close>

definition field :: "Row \<Rightarrow> string \<Rightarrow> ovs_value" where
  "field row name = (case Fields row name of None \<Rightarrow> VNil | Some v \<Rightarrow> v)"

text \<open>
  \<open>OVSDBCache\<close> is \<open>map[string]map[string]ovsdb.Row\<close>: table name, then row uuid.
  A table that is missing reads as the empty table.
\<close>

type_synonym OVSDBCache = "string \<Rightarrow> (string \<times> Row) list"

subsection \<open>Results: a value, a returned error, or a panic\<close>

datatype api_error = NotFound | Conflict | AlreadyExists | InternalError | OtherAPIError

datatype error =
    TableNotFound string
  | PortNotFound string
  | BridgeNotFound string
  | UnableFetchBridge string error
  | CouldntGetAgentInfo error
  | CouldntCreate api_error
  | CouldntFetch api_error
  | UpdateFailed api_error

datatype 'a result = Ok 'a | Err error | Panic

definition and_then :: "'a result \<Rightarrow> ('a \<Rightarrow> 'b result) \<Rightarrow> 'b result" where
  "and_then r f = (case r of Ok x \<Rightarrow> f x | Err e \<Rightarrow> Err e | Panic \<Rightarrow> Panic)"

text \<open>The type assertion \<open>v.(string)\<close> with one result: it panics on any other type.\<close>

definition assertString :: "ovs_value \<Rightarrow> string result" where
  "assertString v = (case v of VString s \<Rightarrow> Ok s | _ \<Rightarrow> Panic)"

definition assertFloat64 :: "ovs_value \<Rightarrow> float64 result" where
  "assertFloat64 v = (case v of VFloat64 f \<Rightarrow> Ok f | _ \<Rightarrow> Panic)"

definition assertOvsMap :: "ovs_value \<Rightarrow> (ovs_value \<times> ovs_value) list result" where
  "assertOvsMap v = (case v of OvsMap goMap \<Rightarrow> Ok goMap | _ \<Rightarrow> Panic)"

text \<open>The type assertion \<open>s, _ := v.(string)\<close>: the zero value on any other type.\<close>

definition stringOrZero :: "ovs_value \<Rightarrow> string" where
  "stringOrZero v = (case v of VString s \<Rightarrow> s | _ \<Rightarrow> [])"

definition float64OrZero :: "ovs_value \<Rightarrow> float64" where
  "float64OrZero v = (case v of VFloat64 f \<Rightarrow> f | _ \<Rightarrow> 0)"

subsection \<open>The AgentInfo record\<close>

type_synonym IPAddress = string
type_synonym Time = int
type_synonym ipmap = "(IPAddress \<times> Time) list"
type_synonym addr = nat

text \<open>Go's int32: a 32-bit word read as two's complement by \<open>sint\<close>.\<close>

type_synonym int32 = "32 word"

text \<open>
  The records take the representation of the \<open>IPMap\<close> field as a parameter. A
  snapshot built by the agent holds a reference (\<open>addr option\<close>, \<open>None\<close> the nil
  map); an object read from or written to the control plane holds the map itself
  (\<open>ipmap\<close>; the field is \<open>omitempty\<close>, so nil and empty are one value there).
\<close>

record 'm OVSInterface =
  if_Name :: string
  if_Type :: string
  Mac :: string
  Ofport :: int32
  if_ExternalIDs :: "(string \<times> string) list"
  IPMap :: 'm

record VlanConfig =
  VlanMode :: string
  Tag :: int32
  Trunk :: string

record BondConfig =
  BondMode :: string

record 'm OVSPort =
  port_Name :: string
  port_ExternalIDs :: "(string \<times> string) list"
  port_VlanConfig :: "VlanConfig option"
  port_BondConfig :: "BondConfig option"
  Interfaces :: "'m OVSInterface list"

record 'm OVSBridge =
  br_Name :: string
  Ports :: "'m OVSPort list"

record 'm OVSInfo =
  Version :: string
  Bridges :: "'m OVSBridge list"

record ObjectMeta =
  meta_Name :: string
  Namespace :: string
  ResourceVersion :: string

record AgentCondition =
  cond_Type :: string
  cond_Status :: string
  LastHeartbeatTime :: Time

record 'm AgentInfo =
  ai_ObjectMeta :: ObjectMeta
  Hostname :: string
  ai_OVSInfo :: "'m OVSInfo"
  Conditions :: "AgentCondition list"

subsection \<open>The world outside the package\<close>

type_synonym IP = "8 word list"

datatype indexer_result =
    IndexerError
  | Absent
  | Present "ipmap AgentInfo"

text \<open>
  What one call of the monitor sees of its collaborators: the operating system and the
  Go library (\<open>os.Hostname\<close>, \<open>time.Now\<close> by the number of the call, \<open>fmt\<close>'s
  rendering of a float64, the conversion of a float64 that int32 cannot represent,
  which Go leaves to the implementation, \<open>net.IP\<close>'s methods), the two tables
  \<open>vlanModeMap\<close> and \<open>bondModeMap\<close> of the package, and the control plane (the
  informer's index, and the client's Get, Create and Update).
\<close>

record world =
  os_Hostname :: "string option"
  time_Now :: "nat \<Rightarrow> Time"
  fmtFloat64 :: "float64 \<Rightarrow> string"
  int32_unrepresentable :: "float64 \<Rightarrow> int32"
  IsGlobalUnicast :: "IP \<Rightarrow> bool"
  ip_String :: "IP \<Rightarrow> string"
  vlanModeMap :: "string \<Rightarrow> string option"
  bondModeMap :: "string \<Rightarrow> string option"
  informer_HasSynced :: bool
  indexer_GetByKey :: "string \<Rightarrow> indexer_result"
  client_Get :: "string \<Rightarrow> api_error + ipmap AgentInfo"
  client_Create :: "ipmap AgentInfo \<Rightarrow> api_error option"
  client_Update :: "ipmap AgentInfo \<Rightarrow> api_error option"

subsection \<open>The monitor and its store of address maps\<close>

text \<open>
  \<open>ipCache\<close> maps a port key to the address of its map object; \<open>objects\<close> is the
  store, \<open>nextAddr\<close> the first address not yet allocated. \<open>syncQueue\<close> lists the
  items added to the work queue, \<open>ovsdbMonitor\<close> is the mirrored database.
\<close>

record AgentMonitor =
  agentName :: string
  ipCache :: "(string \<times> addr) list"
  objects :: "addr \<Rightarrow> ipmap"
  nextAddr :: addr
  syncQueue :: "string list"
  ovsdbMonitor :: OVSDBCache

text \<open>\<open>make(map...)\<close> and a map literal: a new object with the given content.\<close>

definition alloc :: "ipmap \<Rightarrow> AgentMonitor \<Rightarrow> addr \<times> AgentMonitor" where
  "alloc m monitor =
     (nextAddr monitor,
      monitor\<lparr>objects := (objects monitor)(nextAddr monitor := m),
              nextAddr := Suc (nextAddr monitor)\<rparr>)"

text \<open>\<open>m[key]\<close> with the comma-ok form, through a reference; a nil map has no key.\<close>

definition lookupIP :: "AgentMonitor \<Rightarrow> addr option \<Rightarrow> IPAddress \<Rightarrow> Time option" where
  "lookupIP monitor ref key =
     (case ref of None \<Rightarrow> None | Some a \<Rightarrow> map_of (objects monitor a) key)"

text \<open>\<open>m[key] = v\<close> on the map object at address \<open>a\<close>.\<close>

definition putIP :: "addr \<Rightarrow> IPAddress \<Rightarrow> Time \<Rightarrow> AgentMonitor \<Rightarrow> AgentMonitor" where
  "putIP a key v monitor =
     monitor\<lparr>objects := (objects monitor)(a := AList.update key v (objects monitor a))\<rparr>"

text \<open>The content a reference stands for (what a serialiser writes for the field).\<close>

definition deref :: "AgentMonitor \<Rightarrow> addr option \<Rightarrow> ipmap" where
  "deref monitor ref = (case ref of None \<Rightarrow> [] | Some a \<Rightarrow> objects monitor a)"

subsection \<open>Formatting and conversions of the Go library\<close>

text \<open>The verb \<open>%d\<close>: a decimal numeral, with a minus sign when negative.\<close>

fun decimal :: "nat \<Rightarrow> string" where
  "decimal n =
     (if n < 10 then [''0123456789'' ! n]
      else decimal (n div 10) @ [''0123456789'' ! (n mod 10)])"

declare decimal.simps [simp del]

definition fmt_d :: "int \<Rightarrow> string" where
  "fmt_d i = (if i < 0 then CHR ''-'' # decimal (nat (- i)) else decimal (nat i))"

text \<open>\<open>fmt.Sprintf("%s-%d", bridgeName, ofport)\<close>, the key of the IP cache.\<close>

definition portKey :: "string \<Rightarrow> int32 \<Rightarrow> string" where
  "portKey bridgeName ofport = bridgeName @ ''-'' @ fmt_d (sint ofport)"

text \<open>
  The conversion \<open>int32(f)\<close> drops the fraction; where int32 cannot represent the
  result, Go leaves the value to the implementation.
\<close>

definition trunc_toward_zero :: "float64 \<Rightarrow> int" where
  "trunc_toward_zero f = (if 0 \<le> f then \<lfloor>f\<rfloor> else \<lceil>f\<rceil>)"

definition toInt32 :: "world \<Rightarrow> float64 \<Rightarrow> int32" where
  "toInt32 w f =
     (if - (2 ^ 31) \<le> trunc_toward_zero f \<and> trunc_toward_zero f < 2 ^ 31
      then word_of_int (trunc_toward_zero f)
      else int32_unrepresentable w f)"

text \<open>\<open>strings.Split\<close> at a separator of one byte, \<open>strings.Join\<close>, \<open>strings.Trim\<close>.\<close>

fun strings_Split :: "string \<Rightarrow> char \<Rightarrow> string list" where
  "strings_Split [] sep = [[]]"
| "strings_Split (c # cs) sep =
     (if c = sep then [] # strings_Split cs sep
      else (case strings_Split cs sep of
              [] \<Rightarrow> [[c]]
            | piece # pieces \<Rightarrow> (c # piece) # pieces))"

fun strings_Join :: "string list \<Rightarrow> string \<Rightarrow> string" where
  "strings_Join [] sep = []"
| "strings_Join [e] sep = e"
| "strings_Join (e # es) sep = e @ sep @ strings_Join es sep"

definition strings_Trim :: "string \<Rightarrow> string \<Rightarrow> string" where
  "strings_Trim s cutset =
     rev (dropWhile (\<lambda>c. c \<in> set cutset) (rev (dropWhile (\<lambda>c. c \<in> set cutset) s)))"

text \<open>\<open>fmt.Sprintf("%v", xs)\<close> for a slice of float64.\<close>

definition fmt_v_slice :: "world \<Rightarrow> float64 list \<Rightarrow> string" where
  "fmt_v_slice w xs = ''['' @ strings_Join (map (fmtFloat64 w) xs) '' '' @ '']''"

subsection \<open>Reading rows\<close>

definition LocalEndpointIdentity :: string where
  "LocalEndpointIdentity = ''attached-mac''"

text \<open>
  Modelled from the spec: the constant \<open>agentv1alpha1.AgentHealthy\<close> is declared in
  the API package, outside these sources; the spec names the condition "Healthy".
  \<open>corev1.ConditionTrue\<close> is the string "True" of the Kubernetes API.
\<close>

definition AgentHealthy :: string where
  "AgentHealthy = ''Healthy''"

definition ConditionTrue :: string where
  "ConditionTrue = ''True''"

definition ifHasError :: "ovs_value \<Rightarrow> bool" where
  "ifHasError ovsIf =
     (case ovsIf of
        VString v \<Rightarrow> (if v = [] then False else True)
      | _ \<Rightarrow> False)"

fun listUUID :: "ovs_value \<Rightarrow> string list" where
  "listUUID (UUID u) = [u]"
| "listUUID (OvsSet uuidSet) = concat (map listUUID uuidSet)"
| "listUUID _ = []"

text \<open>
  The loop \<open>for name, value := range externalIDs { ids[name.(string)] = value.(string) }\<close>.
\<close>

fun copyExternalIDs ::
  "(ovs_value \<times> ovs_value) list \<Rightarrow> (string \<times> string) list \<Rightarrow> (string \<times> string) list result"
where
  "copyExternalIDs [] ids = Ok ids"
| "copyExternalIDs ((name, v) # rest) ids =
     (case assertString name of
        Ok n \<Rightarrow>
          (case assertString v of
             Ok s \<Rightarrow> copyExternalIDs rest (AList.update n s ids)
           | Err e \<Rightarrow> Err e
           | Panic \<Rightarrow> Panic)
      | Err e \<Rightarrow> Err e
      | Panic \<Rightarrow> Panic)"

text \<open>The loop \<open>for _, item := range trunks.GoSet { ovsTrunks = append(ovsTrunks, item.(float64)) }\<close>.\<close>

fun collectTrunks :: "ovs_value list \<Rightarrow> float64 list \<Rightarrow> float64 list result" where
  "collectTrunks [] ovsTrunks = Ok ovsTrunks"
| "collectTrunks (item # rest) ovsTrunks =
     (case assertFloat64 item of
        Ok f \<Rightarrow> collectTrunks rest (ovsTrunks @ [f])
      | Err e \<Rightarrow> Err e
      | Panic \<Rightarrow> Panic)"

definition fetchOvsVersionLocked :: "OVSDBCache \<Rightarrow> string result" where
  "fetchOvsVersionLocked ovsdbCache =
     (case ovsdbCache ''Open_vSwitch'' of
        [] \<Rightarrow> Err (TableNotFound ''Open_vSwitch'')
      | (uuid, raw) # _ \<Rightarrow> assertString (field raw ''ovs_version''))"

text \<open>
  \<open>fetchInterfaceLocked\<close> returns a pointer: \<open>None\<close> is the nil it returns for a row
  that is missing or reports an error.
\<close>

definition fetchInterfaceLocked ::
  "world \<Rightarrow> AgentMonitor \<Rightarrow> OVSDBCache \<Rightarrow> string \<Rightarrow> string
     \<Rightarrow> (addr option) OVSInterface option result"
where
  "fetchInterfaceLocked w monitor ovsdbCache uuid bridgeName =
     (case map_of (ovsdbCache ''Interface'') uuid of
        None \<Rightarrow> Ok None
      | Some ovsIface \<Rightarrow>
          if ifHasError (field ovsIface ''error'') then Ok None
          else
            and_then (assertString (field ovsIface ''name'')) (\<lambda>name.
            and_then (assertString (field ovsIface ''type'')) (\<lambda>ty.
            and_then (assertOvsMap (field ovsIface ''external_ids'')) (\<lambda>externalIDs.
            and_then (copyExternalIDs externalIDs []) (\<lambda>ids.
              let iface = \<lparr>if_Name = name, if_Type = ty,
                     Mac = (case map_of ids LocalEndpointIdentity of
                              Some mac \<Rightarrow> mac
                            | None \<Rightarrow> stringOrZero (field ovsIface ''mac_in_use'')),
                     Ofport = 0, if_ExternalIDs = ids, IPMap = None\<rparr>
              in Ok (Some
                   (case field ovsIface ''ofport'' of
                      VFloat64 ofport \<Rightarrow>
                        if ofport \<ge> 0
                        then iface\<lparr>Ofport := toInt32 w ofport,
                                   IPMap := map_of (ipCache monitor)
                                              (portKey bridgeName (toInt32 w ofport))\<rparr>
                        else iface
                    | _ \<Rightarrow> iface)))))))"

text \<open>The loop over a port's interface references: a nil interface is not appended.\<close>

fun fetchInterfaces ::
  "world \<Rightarrow> AgentMonitor \<Rightarrow> OVSDBCache \<Rightarrow> string \<Rightarrow> string list
     \<Rightarrow> (addr option) OVSInterface list \<Rightarrow> (addr option) OVSInterface list result"
where
  "fetchInterfaces w monitor ovsdbCache bridgeName [] ifaces = Ok ifaces"
| "fetchInterfaces w monitor ovsdbCache bridgeName (uuid # rest) ifaces =
     (case fetchInterfaceLocked w monitor ovsdbCache uuid bridgeName of
        Ok None \<Rightarrow> fetchInterfaces w monitor ovsdbCache bridgeName rest ifaces
      | Ok (Some iface) \<Rightarrow>
          fetchInterfaces w monitor ovsdbCache bridgeName rest (ifaces @ [iface])
      | Err e \<Rightarrow> Err e
      | Panic \<Rightarrow> Panic)"

definition trunkString :: "world \<Rightarrow> float64 list \<Rightarrow> string" where
  "trunkString w ovsTrunks =
     strings_Trim (strings_Join (strings_Split (fmt_v_slice w ovsTrunks) CHR '' '') '','') ''[]''"

definition fetchPortLocked ::
  "world \<Rightarrow> AgentMonitor \<Rightarrow> OVSDBCache \<Rightarrow> string \<Rightarrow> string \<Rightarrow> (addr option) OVSPort result"
where
  "fetchPortLocked w monitor ovsdbCache uuid bridgeName =
     (case map_of (ovsdbCache ''Port'') uuid of
        None \<Rightarrow> Err (PortNotFound uuid)
      | Some ovsPort \<Rightarrow>
          and_then (assertString (field ovsPort ''name'')) (\<lambda>name.
          and_then (assertOvsMap (field ovsPort ''external_ids'')) (\<lambda>externalIDs.
          and_then (copyExternalIDs externalIDs []) (\<lambda>ids.
            let ovsVlanMode = stringOrZero (field ovsPort ''vlan_mode'');
                ovsBondMode = stringOrZero (field ovsPort ''bond_mode'');
                ovsTag = float64OrZero (field ovsPort ''tag'')
            in
            and_then (case field ovsPort ''trunks'' of
                        OvsSet goSet \<Rightarrow> collectTrunks goSet []
                      | _ \<Rightarrow> Ok []) (\<lambda>ovsTrunks.
            and_then (fetchInterfaces w monitor ovsdbCache bridgeName
                        (listUUID (field ovsPort ''interfaces'')) []) (\<lambda>ifaces.
              Ok \<lparr>port_Name = name, port_ExternalIDs = ids,
                  port_VlanConfig = Some
                    \<lparr>VlanMode = (case vlanModeMap w ovsVlanMode of None \<Rightarrow> [] | Some m \<Rightarrow> m),
                     Tag = toInt32 w ovsTag,
                     Trunk = trunkString w ovsTrunks\<rparr>,
                  port_BondConfig = Some
                    \<lparr>BondMode = (case bondModeMap w ovsBondMode of None \<Rightarrow> [] | Some m \<Rightarrow> m)\<rparr>,
                  Interfaces = ifaces\<rparr>))))))"

text \<open>The loop over a bridge's port references: the first error ends it.\<close>

fun fetchPorts ::
  "world \<Rightarrow> AgentMonitor \<Rightarrow> OVSDBCache \<Rightarrow> string \<Rightarrow> string list
     \<Rightarrow> (addr option) OVSPort list \<Rightarrow> (addr option) OVSPort list result"
where
  "fetchPorts w monitor ovsdbCache bridgeName [] ports = Ok ports"
| "fetchPorts w monitor ovsdbCache bridgeName (uuid # rest) ports =
     (case fetchPortLocked w monitor ovsdbCache uuid bridgeName of
        Ok port \<Rightarrow> fetchPorts w monitor ovsdbCache bridgeName rest (ports @ [port])
      | Err e \<Rightarrow> Err e
      | Panic \<Rightarrow> Panic)"

definition fetchBridgeLocked ::
  "world \<Rightarrow> AgentMonitor \<Rightarrow> OVSDBCache \<Rightarrow> string \<Rightarrow> (addr option) OVSBridge result"
where
  "fetchBridgeLocked w monitor ovsdbCache uuid =
     (case map_of (ovsdbCache ''Bridge'') uuid of
        None \<Rightarrow> Err (BridgeNotFound uuid)
      | Some ovsBri \<Rightarrow>
          and_then (assertString (field ovsBri ''name'')) (\<lambda>name.
          and_then (fetchPorts w monitor ovsdbCache name
                      (listUUID (field ovsBri ''ports'')) []) (\<lambda>ports.
            Ok \<lparr>br_Name = name, Ports = ports\<rparr>)))"

text \<open>
  The loop \<open>for uuid := range ovsdbCache["Bridge"]\<close> of \<open>getAgentInfo\<close>: an error of a
  bridge is wrapped and ends the build.
\<close>

fun fetchBridges ::
  "world \<Rightarrow> AgentMonitor \<Rightarrow> OVSDBCache \<Rightarrow> (string \<times> Row) list
     \<Rightarrow> (addr option) OVSBridge list \<Rightarrow> (addr option) OVSBridge list result"
where
  "fetchBridges w monitor ovsdbCache [] bridges = Ok bridges"
| "fetchBridges w monitor ovsdbCache ((uuid, row) # rest) bridges =
     (case fetchBridgeLocked w monitor ovsdbCache uuid of
        Ok bridge \<Rightarrow> fetchBridges w monitor ovsdbCache rest (bridges @ [bridge])
      | Err e \<Rightarrow> Err (UnableFetchBridge uuid e)
      | Panic \<Rightarrow> Panic)"

text \<open>
  \<open>getAgentInfo\<close>: the closure runs on the mirrored database under its lock. A failed
  version lookup leaves the version empty; a panic is not an error value and ends
  the call.
\<close>

definition getAgentInfo :: "world \<Rightarrow> AgentMonitor \<Rightarrow> (addr option) AgentInfo result" where
  "getAgentInfo w monitor =
     (let ovsdbCache = ovsdbMonitor monitor;
          agentInfo =
            \<lparr>ai_ObjectMeta = \<lparr>meta_Name = agentName monitor, Namespace = [], ResourceVersion = []\<rparr>,
             Hostname = (case os_Hostname w of Some hostname \<Rightarrow> hostname | None \<Rightarrow> []),
             ai_OVSInfo = \<lparr>Version = [], Bridges = []\<rparr>,
             Conditions = []\<rparr>
      in case fetchOvsVersionLocked ovsdbCache of
           Panic \<Rightarrow> Panic
         | versionResult \<Rightarrow>
             and_then (fetchBridges w monitor ovsdbCache (ovsdbCache ''Bridge'') []) (\<lambda>bridges.
               Ok (agentInfo
                    \<lparr>ai_OVSInfo :=
                       \<lparr>Version = (case versionResult of Ok ovsVersion \<Rightarrow> ovsVersion | _ \<Rightarrow> []),
                        Bridges = bridges\<rparr>,
                     Conditions :=
                       [\<lparr>cond_Type = AgentHealthy, cond_Status = ConditionTrue,
                         LastHeartbeatTime = time_Now w 0\<rparr>]\<rparr>)))"

subsection \<open>Learning addresses\<close>

definition k8sClientGet :: "world \<Rightarrow> string \<Rightarrow> api_error + ipmap AgentInfo" where
  "k8sClientGet w name =
     (if informer_HasSynced w
      then (case indexer_GetByKey w name of
              IndexerError \<Rightarrow> Inl InternalError
            | Absent \<Rightarrow> Inl NotFound
            | Present obj \<Rightarrow> Inr obj)
      else client_Get w name)"

text \<open>
  The three loops of \<open>shouldSyncOnLearnIPLocked\<close>, innermost first. \<open>None\<close> is the
  early \<open>return true\<close>; otherwise the running value of \<open>agentInfoContainsIPMapCount\<close>.
\<close>

fun scanInterfaces ::
  "AgentMonitor \<Rightarrow> string \<Rightarrow> ipmap OVSInterface list \<Rightarrow> nat \<Rightarrow> nat option"
where
  "scanInterfaces monitor bridgeName [] n = Some n"
| "scanInterfaces monitor bridgeName (iface # rest) n =
     (case map_of (ipCache monitor) (portKey bridgeName (Ofport iface)) of
        None \<Rightarrow> scanInterfaces monitor bridgeName rest n
      | Some a \<Rightarrow>
          if list_ex (\<lambda>(ip, t). map_of (IPMap iface) ip = None) (objects monitor a)
          then None
          else scanInterfaces monitor bridgeName rest (Suc n))"

fun scanPorts :: "AgentMonitor \<Rightarrow> string \<Rightarrow> ipmap OVSPort list \<Rightarrow> nat \<Rightarrow> nat option" where
  "scanPorts monitor bridgeName [] n = Some n"
| "scanPorts monitor bridgeName (port # rest) n =
     (case scanInterfaces monitor bridgeName (Interfaces port) n of
        None \<Rightarrow> None
      | Some n' \<Rightarrow> scanPorts monitor bridgeName rest n')"

fun scanBridges :: "AgentMonitor \<Rightarrow> ipmap OVSBridge list \<Rightarrow> nat \<Rightarrow> nat option" where
  "scanBridges monitor [] n = Some n"
| "scanBridges monitor (bridge # rest) n =
     (case scanPorts monitor (br_Name bridge) (Ports bridge) n of
        None \<Rightarrow> None
      | Some n' \<Rightarrow> scanBridges monitor rest n')"

definition shouldSyncOnLearnIPLocked :: "world \<Rightarrow> AgentMonitor \<Rightarrow> bool" where
  "shouldSyncOnLearnIPLocked w monitor =
     (case k8sClientGet w (agentName monitor) of
        Inl err \<Rightarrow> True
      | Inr agentInfo \<Rightarrow>
          (case scanBridges monitor (Bridges (ai_OVSInfo agentInfo)) 0 of
             None \<Rightarrow> True
           | Some agentInfoContainsIPMapCount \<Rightarrow>
               agentInfoContainsIPMapCount \<noteq> length (ipCache monitor)))"

text \<open>
  The loop of \<open>updateOfPortIPAddress\<close> over the batch; \<open>n\<close> counts the calls of
  \<open>time.Now\<close> so far. The map made for a key that is new is replaced at once by the
  map literal.
\<close>

fun learnAddresses :: "world \<Rightarrow> (string \<times> IP) list \<Rightarrow> nat \<Rightarrow> AgentMonitor \<Rightarrow> AgentMonitor" where
  "learnAddresses w [] n monitor = monitor"
| "learnAddresses w ((bridgePort, ip) # rest) n monitor =
     (if \<not> IsGlobalUnicast w ip then learnAddresses w rest n monitor
      else
        let m1 = (case map_of (ipCache monitor) bridgePort of
                    Some a \<Rightarrow> monitor
                  | None \<Rightarrow>
                      (let (a, m) = alloc [] monitor
                       in m\<lparr>ipCache := AList.update bridgePort a (ipCache m)\<rparr>));
            (a, m2) = alloc [(ip_String w ip, time_Now w n)] m1
        in learnAddresses w rest (Suc n)
             (m2\<lparr>ipCache := AList.update bridgePort a (ipCache m2)\<rparr>))"

definition updateOfPortIPAddress :: "world \<Rightarrow> (string \<times> IP) list \<Rightarrow> AgentMonitor \<Rightarrow> AgentMonitor" where
  "updateOfPortIPAddress w localEndpointInfo monitor =
     (let m = learnAddresses w localEndpointInfo 0 monitor
      in if shouldSyncOnLearnIPLocked w m
         then m\<lparr>syncQueue := syncQueue m @ [agentName m]\<rparr>
         else m)"

subsection \<open>Merging with the remote record\<close>

text \<open>The loops of \<open>getCpIntf\<close>: the first remote interface of a bridge of that name
  with the same \<open>Ofport\<close>, as a deep copy.\<close>

fun findIntf :: "int32 \<Rightarrow> ipmap OVSInterface list \<Rightarrow> ipmap OVSInterface option" where
  "findIntf ofport [] = None"
| "findIntf ofport (intf # rest) =
     (if Ofport intf = ofport then Some intf else findIntf ofport rest)"

fun findIntfInPorts :: "int32 \<Rightarrow> ipmap OVSPort list \<Rightarrow> ipmap OVSInterface option" where
  "findIntfInPorts ofport [] = None"
| "findIntfInPorts ofport (port # rest) =
     (case findIntf ofport (Interfaces port) of
        Some intf \<Rightarrow> Some intf
      | None \<Rightarrow> findIntfInPorts ofport rest)"

fun findIntfInBridges :: "string \<Rightarrow> int32 \<Rightarrow> ipmap OVSBridge list \<Rightarrow> ipmap OVSInterface option" where
  "findIntfInBridges bridgeName ofport [] = None"
| "findIntfInBridges bridgeName ofport (ovsBr # rest) =
     (if br_Name ovsBr \<noteq> bridgeName then findIntfInBridges bridgeName ofport rest
      else (case findIntfInPorts ofport (Ports ovsBr) of
              Some intf \<Rightarrow> Some intf
            | None \<Rightarrow> findIntfInBridges bridgeName ofport rest))"

definition getCpIntf ::
  "string \<Rightarrow> (addr option) OVSInterface \<Rightarrow> ipmap AgentInfo \<Rightarrow> ipmap OVSInterface option"
where
  "getCpIntf bridgeName newInterface cpAgentInfo =
     findIntfInBridges bridgeName (Ofport newInterface) (Bridges (ai_OVSInfo cpAgentInfo))"

text \<open>
  The loop \<open>for key, value := range matchIntf.IPMap\<close> of \<open>mergeAgentInfo\<close>.
  \<open>intfIPMap\<close> is \<open>intf.IPMap\<close>, the field of the copy that \<open>range\<close> made of the
  interface; \<open>cur\<close> is the field of the interface in the snapshot itself, which the
  loop sets when it is nil. The result is that field and the store.
\<close>

fun mergeIPMap ::
  "addr option \<Rightarrow> ipmap \<Rightarrow> addr option \<Rightarrow> AgentMonitor \<Rightarrow> addr option \<times> AgentMonitor"
where
  "mergeIPMap intfIPMap [] cur monitor = (cur, monitor)"
| "mergeIPMap intfIPMap ((key, v) # rest) cur monitor =
     (let (a, m1) = (case cur of None \<Rightarrow> alloc [] monitor | Some a \<Rightarrow> (a, monitor));
          m2 = (if lookupIP m1 intfIPMap key = None then putIP a key v m1 else m1)
      in mergeIPMap intfIPMap rest (Some a) m2)"

fun mergeInterfaces ::
  "ipmap AgentInfo \<Rightarrow> string \<Rightarrow> (addr option) OVSInterface list \<Rightarrow> AgentMonitor
     \<Rightarrow> (addr option) OVSInterface list \<times> AgentMonitor"
where
  "mergeInterfaces cpAgentInfo bridgeName [] monitor = ([], monitor)"
| "mergeInterfaces cpAgentInfo bridgeName (intf # rest) monitor =
     (case getCpIntf bridgeName intf cpAgentInfo of
        None \<Rightarrow>
          (let (rest', m') = mergeInterfaces cpAgentInfo bridgeName rest monitor
           in (intf # rest', m'))
      | Some matchIntf \<Rightarrow>
          (let (ref, m1) = mergeIPMap (IPMap intf) (IPMap matchIntf) (IPMap intf) monitor;
               (rest', m2) = mergeInterfaces cpAgentInfo bridgeName rest m1
           in (intf\<lparr>IPMap := ref\<rparr> # rest', m2)))"

fun mergePorts ::
  "ipmap AgentInfo \<Rightarrow> string \<Rightarrow> (addr option) OVSPort list \<Rightarrow> AgentMonitor
     \<Rightarrow> (addr option) OVSPort list \<times> AgentMonitor"
where
  "mergePorts cpAgentInfo bridgeName [] monitor = ([], monitor)"
| "mergePorts cpAgentInfo bridgeName (port # rest) monitor =
     (let (ifaces, m1) = mergeInterfaces cpAgentInfo bridgeName (Interfaces port) monitor;
          (rest', m2) = mergePorts cpAgentInfo bridgeName rest m1
      in (port\<lparr>Interfaces := ifaces\<rparr> # rest', m2))"

fun mergeBridges ::
  "ipmap AgentInfo \<Rightarrow> (addr option) OVSBridge list \<Rightarrow> AgentMonitor
     \<Rightarrow> (addr option) OVSBridge list \<times> AgentMonitor"
where
  "mergeBridges cpAgentInfo [] monitor = ([], monitor)"
| "mergeBridges cpAgentInfo (ovsBr # rest) monitor =
     (let (ports, m1) = mergePorts cpAgentInfo (br_Name ovsBr) (Ports ovsBr) monitor;
          (rest', m2) = mergeBridges cpAgentInfo rest m1
      in (ovsBr\<lparr>Ports := ports\<rparr> # rest', m2))"

text \<open>\<open>mergeAgentInfo\<close> updates the snapshot and the map objects it points to in place.\<close>

definition mergeAgentInfo ::
  "(addr option) AgentInfo \<Rightarrow> ipmap AgentInfo \<Rightarrow> AgentMonitor
     \<Rightarrow> (addr option) AgentInfo \<times> AgentMonitor"
where
  "mergeAgentInfo localAgentInfo cpAgentInfo monitor =
     (let (bridges, m) =
            mergeBridges cpAgentInfo (Bridges (ai_OVSInfo localAgentInfo)) monitor
      in (localAgentInfo\<lparr>ai_OVSInfo := (ai_OVSInfo localAgentInfo)\<lparr>Bridges := bridges\<rparr>\<rparr>, m))"

subsection \<open>Synchronising\<close>

text \<open>What the client sends for a snapshot: every \<open>IPMap\<close> with the content of its object.\<close>

definition sentInterface :: "AgentMonitor \<Rightarrow> (addr option) OVSInterface \<Rightarrow> ipmap OVSInterface" where
  "sentInterface monitor i =
     \<lparr>if_Name = if_Name i, if_Type = if_Type i, Mac = Mac i, Ofport = Ofport i,
      if_ExternalIDs = if_ExternalIDs i, IPMap = deref monitor (IPMap i)\<rparr>"

definition sentPort :: "AgentMonitor \<Rightarrow> (addr option) OVSPort \<Rightarrow> ipmap OVSPort" where
  "sentPort monitor p =
     \<lparr>port_Name = port_Name p, port_ExternalIDs = port_ExternalIDs p,
      port_VlanConfig = port_VlanConfig p, port_BondConfig = port_BondConfig p,
      Interfaces = map (sentInterface monitor) (Interfaces p)\<rparr>"

definition sentBridge :: "AgentMonitor \<Rightarrow> (addr option) OVSBridge \<Rightarrow> ipmap OVSBridge" where
  "sentBridge monitor b = \<lparr>br_Name = br_Name b, Ports = map (sentPort monitor) (Ports b)\<rparr>"

definition sentAgentInfo :: "AgentMonitor \<Rightarrow> (addr option) AgentInfo \<Rightarrow> ipmap AgentInfo" where
  "sentAgentInfo monitor agentInfo =
     \<lparr>ai_ObjectMeta = ai_ObjectMeta agentInfo, Hostname = Hostname agentInfo,
      ai_OVSInfo = \<lparr>Version = Version (ai_OVSInfo agentInfo),
                    Bridges = map (sentBridge monitor) (Bridges (ai_OVSInfo agentInfo))\<rparr>,
      Conditions = Conditions agentInfo\<rparr>"

text \<open>
  \<open>syncAgentInfo\<close> returns its error (\<open>Ok ()\<close> for nil) and leaves the monitor as the
  second component.
\<close>

definition syncAgentInfo :: "world \<Rightarrow> AgentMonitor \<Rightarrow> unit result \<times> AgentMonitor" where
  "syncAgentInfo w monitor =
     (case getAgentInfo w monitor of
        Panic \<Rightarrow> (Panic, monitor)
      | Err err \<Rightarrow> (Err (CouldntGetAgentInfo err), monitor)
      | Ok agentInfo \<Rightarrow>
          (case k8sClientGet w (agentName monitor) of
             Inl err \<Rightarrow>
               if err = NotFound
               then (case client_Create w (sentAgentInfo monitor agentInfo) of
                       Some err' \<Rightarrow> (Err (CouldntCreate err'), monitor)
                     | None \<Rightarrow> (Ok (), monitor))
               else (Err (CouldntFetch err), monitor)
           | Inr originAgentInfo \<Rightarrow>
               (let (merged, m) = mergeAgentInfo agentInfo originAgentInfo monitor;
                    agentInfo' = merged\<lparr>ai_ObjectMeta := ai_ObjectMeta originAgentInfo\<rparr>
                in case client_Update w (sentAgentInfo m agentInfo') of
                     Some err \<Rightarrow> (Err (UpdateFailed err), m)
                   | None \<Rightarrow> (Ok (), m\<lparr>ipCache := []\<rparr>))))"

text \<open>The IP cache as its content: each key with the address map it holds.\<close>

definition cacheContent :: "AgentMonitor \<Rightarrow> (string \<times> ipmap) list" where
  "cacheContent monitor = map (\<lambda>(key, a). (key, objects monitor a)) (ipCache monitor)"

subsection \<open>A concrete node\<close>

text \<open>
  One bridge \<open>br0\<close> with one port \<open>p0\<close>. The port refers to three interfaces:
  \<open>if-1\<close> (\<open>eth0\<close>, ofport 5), \<open>if-2\<close>, which has no row, and \<open>if-3\<close>, whose row
  reports an error. The cache has learned 10.0.0.7 on \<open>br0-5\<close>; the remote record
  holds 10.0.0.9 for the same interface.
\<close>

definition ifaceRow1 :: Row where
  "ifaceRow1 = Row [''name'' \<mapsto> VString ''eth0'', ''type'' \<mapsto> VString [],
     ''external_ids'' \<mapsto> OvsMap [(VString ''attached-mac'', VString ''aa:bb'')],
     ''mac_in_use'' \<mapsto> VString ''cc:dd'', ''ofport'' \<mapsto> VFloat64 5, ''error'' \<mapsto> OvsSet []]"

definition ifaceRow3 :: Row where
  "ifaceRow3 = Row [''name'' \<mapsto> VString ''eth3'', ''type'' \<mapsto> VString [],
     ''external_ids'' \<mapsto> OvsMap [], ''mac_in_use'' \<mapsto> VString ''ee:ff'',
     ''ofport'' \<mapsto> VFloat64 6, ''error'' \<mapsto> VString ''could not open network device'']"

definition portRow1 :: Row where
  "portRow1 = Row [''name'' \<mapsto> VString ''p0'', ''external_ids'' \<mapsto> OvsMap [],
     ''interfaces'' \<mapsto> OvsSet [UUID ''if-1'', UUID ''if-2'', UUID ''if-3''],
     ''tag'' \<mapsto> VFloat64 7, ''trunks'' \<mapsto> OvsSet [VFloat64 1, VFloat64 2]]"

definition bridgeRow1 :: Row where
  "bridgeRow1 = Row [''name'' \<mapsto> VString ''br0'', ''ports'' \<mapsto> UUID ''port-1'']"

definition cache0 :: OVSDBCache where
  "cache0 = (\<lambda>t. [])
     (''Open_vSwitch'' := [(''ovs-1'', Row [''ovs_version'' \<mapsto> VString ''2.15.0''])],
      ''Bridge'' := [(''br-1'', bridgeRow1)],
      ''Port'' := [(''port-1'', portRow1)],
      ''Interface'' := [(''if-1'', ifaceRow1), (''if-3'', ifaceRow3)])"

definition remoteIface0 :: "ipmap OVSInterface" where
  "remoteIface0 = \<lparr>if_Name = ''eth0'', if_Type = [], Mac = ''aa:bb'', Ofport = 5,
     if_ExternalIDs = [(''attached-mac'', ''aa:bb'')], IPMap = [(''10.0.0.9'', 50)]\<rparr>"

definition remote0 :: "ipmap AgentInfo" where
  "remote0 =
     \<lparr>ai_ObjectMeta = \<lparr>meta_Name = ''agent1'', Namespace = [], ResourceVersion = ''41''\<rparr>,
      Hostname = ''node1'',
      ai_OVSInfo = \<lparr>Version = ''2.15.0'',
        Bridges = [\<lparr>br_Name = ''br0'',
          Ports = [\<lparr>port_Name = ''p0'', port_ExternalIDs = [],
            port_VlanConfig = None, port_BondConfig = None,
            Interfaces = [remoteIface0]\<rparr>]\<rparr>]\<rparr>,
      Conditions = []\<rparr>"

text \<open>
  The methods of \<open>net.IP\<close> that the worlds of the concrete node answer with, after
  Go's package \<open>net\<close>: an address has 4 bytes, or 16 bytes, which may hold an
  address of 4 bytes behind the prefix \<open>v4InV6Prefix\<close>. \<open>String\<close> is given for the
  addresses that \<open>To4\<close> accepts, which print as four decimal numbers.
\<close>

unbundle bit_operations_syntax

definition v4InV6Prefix :: IP where
  "v4InV6Prefix = [0, 0, 0, 0, 0, 0, 0, 0, 0, 0, 255, 255]"

definition IPv4 :: "8 word \<Rightarrow> 8 word \<Rightarrow> 8 word \<Rightarrow> 8 word \<Rightarrow> IP" where
  "IPv4 a b c d = v4InV6Prefix @ [a, b, c, d]"

definition ip_To4 :: "IP \<Rightarrow> IP option" where
  "ip_To4 ip =
     (if length ip = 4 then Some ip
      else if length ip = 16 \<and> take 10 ip = replicate 10 0 \<and> ip ! 10 = 255 \<and> ip ! 11 = 255
      then Some (drop 12 ip)
      else None)"

definition ip_Equal :: "IP \<Rightarrow> IP \<Rightarrow> bool" where
  "ip_Equal ip x =
     (if length ip = length x then ip = x
      else if length ip = 4 \<and> length x = 16
      then take 12 x = v4InV6Prefix \<and> ip = drop 12 x
      else if length ip = 16 \<and> length x = 4
      then take 12 ip = v4InV6Prefix \<and> drop 12 ip = x
      else False)"

definition ip_IsUnspecified :: "IP \<Rightarrow> bool" where
  "ip_IsUnspecified ip = (ip_Equal ip (IPv4 0 0 0 0) \<or> ip_Equal ip (replicate 16 0))"

definition ip_IsLoopback :: "IP \<Rightarrow> bool" where
  "ip_IsLoopback ip =
     (case ip_To4 ip of
        Some ip4 \<Rightarrow> ip4 ! 0 = 127
      | None \<Rightarrow> ip_Equal ip (replicate 15 0 @ [1]))"

definition ip_IsMulticast :: "IP \<Rightarrow> bool" where
  "ip_IsMulticast ip =
     (case ip_To4 ip of
        Some ip4 \<Rightarrow> ip4 ! 0 AND 0xf0 = 0xe0
      | None \<Rightarrow> length ip = 16 \<and> ip ! 0 = 0xff)"

definition ip_IsLinkLocalUnicast :: "IP \<Rightarrow> bool" where
  "ip_IsLinkLocalUnicast ip =
     (case ip_To4 ip of
        Some ip4 \<Rightarrow> ip4 ! 0 = 169 \<and> ip4 ! 1 = 254
      | None \<Rightarrow> length ip = 16 \<and> ip ! 0 = 0xfe \<and> ip ! 1 AND 0xc0 = 0x80)"

definition ip_IsGlobalUnicast :: "IP \<Rightarrow> bool" where
  "ip_IsGlobalUnicast ip =
     ((length ip = 4 \<or> length ip = 16) \<and>
      \<not> ip_Equal ip (IPv4 255 255 255 255) \<and>
      \<not> ip_IsUnspecified ip \<and>
      \<not> ip_IsLoopback ip \<and>
      \<not> ip_IsMulticast ip \<and>
      \<not> ip_IsLinkLocalUnicast ip)"

definition ip_dotted :: "IP \<Rightarrow> string" where
  "ip_dotted ip =
     (case ip_To4 ip of
        Some ip4 \<Rightarrow> strings_Join (map (\<lambda>b. decimal (unat b)) ip4) ''.''
      | None \<Rightarrow> [])"

text \<open>The remote record exists and the update is refused with a conflict.\<close>

definition world0 :: world where
  "world0 =
     \<lparr>os_Hostname = Some ''node1'', time_Now = (\<lambda>n. 100 + int n),
      fmtFloat64 = (\<lambda>f. fmt_d \<lfloor>f\<rfloor>),
      int32_unrepresentable = (\<lambda>f. word_of_int (- (2 ^ 31))),
      IsGlobalUnicast = ip_IsGlobalUnicast,
      ip_String = ip_dotted,
      vlanModeMap = Map.empty, bondModeMap = Map.empty,
      informer_HasSynced = False, indexer_GetByKey = (\<lambda>k. Absent),
      client_Get = (\<lambda>k. Inr remote0),
      client_Create = (\<lambda>obj. None),
      client_Update = (\<lambda>obj. Some Conflict)\<rparr>"

definition monitor0 :: AgentMonitor where
  "monitor0 =
     \<lparr>agentName = ''agent1'', ipCache = [(''br0-5'', 0)],
      objects = (\<lambda>a. [])(0 := [(''10.0.0.7'', 100)]), nextAddr = 1,
      syncQueue = [], ovsdbMonitor = cache0\<rparr>"

text \<open>The interface built for \<open>if-1\<close>, and the snapshot built on this node.\<close>

definition builtIface0 :: "(addr option) OVSInterface" where
  "builtIface0 = \<lparr>if_Name = ''eth0'', if_Type = [], Mac = ''aa:bb'', Ofport = 5,
     if_ExternalIDs = [(''attached-mac'', ''aa:bb'')], IPMap = Some 0\<rparr>"

definition snapshot0 :: "(addr option) AgentInfo" where
  "snapshot0 =
     \<lparr>ai_ObjectMeta = \<lparr>meta_Name = ''agent1'', Namespace = [], ResourceVersion = []\<rparr>,
      Hostname = ''node1'',
      ai_OVSInfo = \<lparr>Version = ''2.15.0'',
        Bridges = [\<lparr>br_Name = ''br0'',
          Ports = [\<lparr>port_Name = ''p0'', port_ExternalIDs = [],
            port_VlanConfig = Some \<lparr>VlanMode = [], Tag = 7, Trunk = ''1,2''\<rparr>,
            port_BondConfig = Some \<lparr>BondMode = []\<rparr>,
            Interfaces = [builtIface0]\<rparr>]\<rparr>]\<rparr>,
      Conditions = [\<lparr>cond_Type = ''Healthy'', cond_Status = ''True'', LastHeartbeatTime = 100\<rparr>]\<rparr>"

subsection \<open>Columns of the expected type\<close>

definition isString :: "ovs_value \<Rightarrow> bool" where
  "isString v = (case v of VString s \<Rightarrow> True | _ \<Rightarrow> False)"

definition isFloat64 :: "ovs_value \<Rightarrow> bool" where
  "isFloat64 v = (case v of VFloat64 f \<Rightarrow> True | _ \<Rightarrow> False)"

text \<open>An \<open>external_ids\<close> column: a map from strings to strings.\<close>

definition typedExternalIDs :: "ovs_value \<Rightarrow> bool" where
  "typedExternalIDs v =
     (case v of
        OvsMap goMap \<Rightarrow> list_all (\<lambda>(name, v). isString name \<and> isString v) goMap
      | _ \<Rightarrow> False)"

text \<open>The columns that the readers assert: of a row of each table.\<close>

definition typedInterfaceRow :: "Row \<Rightarrow> bool" where
  "typedInterfaceRow row =
     (ifHasError (field row ''error'') \<or>
      (isString (field row ''name'') \<and> isString (field row ''type'') \<and>
       typedExternalIDs (field row ''external_ids'')))"

definition typedPortRow :: "Row \<Rightarrow> bool" where
  "typedPortRow row =
     (isString (field row ''name'') \<and> typedExternalIDs (field row ''external_ids'') \<and>
      (case field row ''trunks'' of OvsSet goSet \<Rightarrow> list_all isFloat64 goSet | _ \<Rightarrow> True))"

definition typedBridgeRow :: "Row \<Rightarrow> bool" where
  "typedBridgeRow row = isString (field row ''name'')"

definition typedColumns :: "OVSDBCache \<Rightarrow> bool" where
  "typedColumns ovsdbCache =
     ((case ovsdbCache ''Open_vSwitch'' of
         [] \<Rightarrow> True
       | (uuid, raw) # rest \<Rightarrow> isString (field raw ''ovs_version'')) \<and>
      list_all (\<lambda>(uuid, row). typedBridgeRow row) (ovsdbCache ''Bridge'') \<and>
      list_all (\<lambda>(uuid, row). typedPortRow row) (ovsdbCache ''Port'') \<and>
      list_all (\<lambda>(uuid, row). typedInterfaceRow row) (ovsdbCache ''Interface''))"


definition cacheBadVersion :: OVSDBCache where
  "cacheBadVersion = cache0(''Open_vSwitch'' := [(''ovs-1'', Row Map.empty)])"

definition cacheBadPort :: OVSDBCache where
  "cacheBadPort = cache0(''Port'' :=
     [(''port-1'', Row [''name'' \<mapsto> VFloat64 1, ''external_ids'' \<mapsto> OvsMap [],
                       ''interfaces'' \<mapsto> UUID ''if-1''])])"

definition cacheBadIface :: OVSDBCache where
  "cacheBadIface = cache0(''Interface'' :=
     [(''if-1'', Row [''name'' \<mapsto> VString ''eth0'', ''type'' \<mapsto> VFloat64 1,
                     ''external_ids'' \<mapsto> OvsMap [], ''ofport'' \<mapsto> VFloat64 5])])"

text \<open>
  Two more worlds for the concrete node: the remote record does not exist yet and the
  create succeeds; the remote record exists and the update succeeds.
\<close>

definition worldNotFound :: world where
  "worldNotFound = world0\<lparr>client_Get := (\<lambda>k. Inl NotFound)\<rparr>"

definition worldUpdateOk :: world where
  "worldUpdateOk = world0\<lparr>client_Update := (\<lambda>obj. None)\<rparr>"

text \<open>
  One more: the remote record holds the loopback address 127.0.0.1 for \<open>eth0\<close>, and
  the update is refused with a conflict.
\<close>

definition remoteLoopback :: "ipmap AgentInfo" where
  "remoteLoopback = remote0\<lparr>ai_OVSInfo := \<lparr>Version = ''2.15.0'',
     Bridges = [\<lparr>br_Name = ''br0'',
       Ports = [\<lparr>port_Name = ''p0'', port_ExternalIDs = [],
         port_VlanConfig = None, port_BondConfig = None,
         Interfaces = [remoteIface0\<lparr>IPMap := [(''127.0.0.1'', 50)]\<rparr>]\<rparr>]\<rparr>]\<rparr>\<rparr>"

definition worldLoopback :: world where
  "worldLoopback = world0\<lparr>client_Get := (\<lambda>k. Inr remoteLoopback)\<rparr>"

subsection \<open>Well-formed stores\<close>

text \<open>Every map object that the IP cache refers to has been allocated.\<close>

definition cacheAllocated :: "AgentMonitor \<Rightarrow> bool" where
  "cacheAllocated monitor = list_all (\<lambda>(key, a). a < nextAddr monitor) (ipCache monitor)"

text \<open>A batch of the learning channel for the concrete node.\<close>

definition batch0 :: "(string \<times> IP) list" where
  "batch0 = [(''br0-5'', [10, 0, 0, 8]), (''br0-6'', [127, 0, 0, 1]), (''br0-7'', [10, 0, 0, 1])]"

subsection \<open>The trigger of a synchronisation, in words\<close>

text \<open>The interfaces of a remote record, each with the name of its bridge, in order.\<close>

definition remoteInterfaces :: "ipmap AgentInfo \<Rightarrow> (string \<times> ipmap OVSInterface) list" where
  "remoteInterfaces agentInfo =
     concat (map (\<lambda>bridge.
       concat (map (\<lambda>port. map (\<lambda>iface. (br_Name bridge, iface)) (Interfaces port))
                   (Ports bridge)))
       (Bridges (ai_OVSInfo agentInfo)))"

text \<open>The IP cache has an entry under the key of a remote interface.\<close>

definition cachedUnder :: "AgentMonitor \<Rightarrow> string \<times> ipmap OVSInterface \<Rightarrow> bool" where
  "cachedUnder monitor bi =
     (map_of (ipCache monitor) (portKey (fst bi) (Ofport (snd bi))) \<noteq> None)"

text \<open>
  Some address cached under the key of a remote interface is not a key of that
  interface's \<open>IPMap\<close>.
\<close>

definition cachedAddressMissing :: "AgentMonitor \<Rightarrow> string \<times> ipmap OVSInterface \<Rightarrow> bool" where
  "cachedAddressMissing monitor bi =
     (case map_of (ipCache monitor) (portKey (fst bi) (Ofport (snd bi))) of
        None \<Rightarrow> False
      | Some a \<Rightarrow> list_ex (\<lambda>(ip, t). ip \<notin> fst ` set (IPMap (snd bi))) (objects monitor a))"

text \<open>The count the code compares with the size of the cache.\<close>

definition cachedInterfaceCount :: "AgentMonitor \<Rightarrow> ipmap AgentInfo \<Rightarrow> nat" where
  "cachedInterfaceCount monitor agentInfo =
     length (filter (cachedUnder monitor) (remoteInterfaces agentInfo))"

text \<open>
  The counts of the claim as it is worded: all addresses of the cache, and all
  addresses of the remote record.
\<close>

definition cacheAddressCount :: "AgentMonitor \<Rightarrow> nat" where
  "cacheAddressCount monitor =
     sum_list (map (\<lambda>(key, a). length (objects monitor a)) (ipCache monitor))"

definition remoteAddressCount :: "ipmap AgentInfo \<Rightarrow> nat" where
  "remoteAddressCount agentInfo =
     sum_list (map (\<lambda>(bridgeName, iface). length (IPMap iface)) (remoteInterfaces agentInfo))"

text \<open>
  The trigger as the claim words it: the fetch fails, or a cached address of a port
  that the remote record has is missing there, or the two address counts differ.
\<close>

definition claimedShouldSync :: "world \<Rightarrow> AgentMonitor \<Rightarrow> bool" where
  "claimedShouldSync w monitor =
     (case k8sClientGet w (agentName monitor) of
        Inl err \<Rightarrow> True
      | Inr agentInfo \<Rightarrow>
          list_ex (cachedAddressMissing monitor) (remoteInterfaces agentInfo) \<or>
          cacheAddressCount monitor \<noteq> remoteAddressCount agentInfo)"

text \<open>
  A remote record for the concrete node in which \<open>eth0\<close> holds the cached address
  10.0.0.7 and one more, and a second interface holds an address of its own.
\<close>

definition remoteTwo :: "ipmap AgentInfo" where
  "remoteTwo = remote0\<lparr>ai_OVSInfo := \<lparr>Version = ''2.15.0'',
     Bridges = [\<lparr>br_Name = ''br0'',
       Ports = [\<lparr>port_Name = ''p0'', port_ExternalIDs = [],
         port_VlanConfig = None, port_BondConfig = None,
         Interfaces =
           [remoteIface0\<lparr>IPMap := [(''10.0.0.7'', 100), (''10.0.0.9'', 50)]\<rparr>,
            remoteIface0\<lparr>if_Name := ''eth1'', Ofport := 6, IPMap := [(''10.0.0.3'', 40)]\<rparr>]\<rparr>]\<rparr>]\<rparr>\<rparr>"

definition worldTwo :: world where
  "worldTwo = world0\<lparr>client_Get := (\<lambda>k. Inr remoteTwo)\<rparr>"

subsection \<open>Snapshots and the objects they share\<close>

text \<open>The interfaces of a built snapshot, each with the name of its bridge, in order.\<close>

definition snapshotInterfaces ::
  "(addr option) AgentInfo \<Rightarrow> (string \<times> (addr option) OVSInterface) list"
where
  "snapshotInterfaces agentInfo =
     concat (map (\<lambda>bridge.
       concat (map (\<lambda>port. map (\<lambda>iface. (br_Name bridge, iface)) (Interfaces port))
                   (Ports bridge)))
       (Bridges (ai_OVSInfo agentInfo)))"

text \<open>
  How a built snapshot shares map objects: every \<open>IPMap\<close> that is not nil is an
  allocated object, and two interfaces have the same object only when they have the
  same bridge name and \<open>Ofport\<close>. The builder takes an \<open>IPMap\<close> from the IP cache
  by the key of bridge name and \<open>Ofport\<close>, so its snapshots are of this kind
  (\<open>getAgentInfo_sharedByKeyOnly\<close>).
\<close>

definition sharedByKeyOnly :: "AgentMonitor \<Rightarrow> (string \<times> (addr option) OVSInterface) list \<Rightarrow> bool" where
  "sharedByKeyOnly monitor ifaces =
     (list_all (\<lambda>(bridgeName, intf).
         case IPMap intf of None \<Rightarrow> True | Some a \<Rightarrow> a < nextAddr monitor) ifaces \<and>
      list_all (\<lambda>(bridgeName, intf).
         list_all (\<lambda>(bridgeName', intf').
            IPMap intf \<noteq> None \<and> IPMap intf = IPMap intf' \<longrightarrow>
            bridgeName = bridgeName' \<and> Ofport intf = Ofport intf') ifaces) ifaces)"

text \<open>
  The three loops of \<open>mergeAgentInfo\<close> as one loop over the interfaces in order
  (it does to the store what they do; see \<open>mergeBridges_flat\<close>).
\<close>

fun mergeFlat ::
  "ipmap AgentInfo \<Rightarrow> (string \<times> (addr option) OVSInterface) list \<Rightarrow> AgentMonitor
     \<Rightarrow> (string \<times> (addr option) OVSInterface) list \<times> AgentMonitor"
where
  "mergeFlat cpAgentInfo [] monitor = ([], monitor)"
| "mergeFlat cpAgentInfo ((bridgeName, intf) # rest) monitor =
     (case getCpIntf bridgeName intf cpAgentInfo of
        None \<Rightarrow>
          (let (rest', m') = mergeFlat cpAgentInfo rest monitor
           in ((bridgeName, intf) # rest', m'))
      | Some matchIntf \<Rightarrow>
          (let (ref, m1) = mergeIPMap (IPMap intf) (IPMap matchIntf) (IPMap intf) monitor;
               (rest', m2) = mergeFlat cpAgentInfo rest m1
           in ((bridgeName, intf\<lparr>IPMap := ref\<rparr>) # rest', m2)))"

text \<open>
  Every \<open>ofport\<close> column of the interface table that is a number is below \<open>2^31\<close>, so
  that its conversion to int32 is defined by the language. (Open vSwitch numbers its
  ports below \<open>2^16\<close>.)
\<close>

definition ofportsRepresentable :: "OVSDBCache \<Rightarrow> bool" where
  "ofportsRepresentable ovsdbCache =
     list_all (\<lambda>(uuid, row).
        case field row ''ofport'' of VFloat64 f \<Rightarrow> f < 2 ^ 31 | _ \<Rightarrow> True)
       (ovsdbCache ''Interface'')"

section \<open>Properties of the row readers\<close>

lemma and_then_simps [simp]:
  "and_then (Ok x) f = f x"
  "and_then (Err e) f = Err e"
  "and_then Panic f = Panic"
  by (simp_all add: and_then_def)

lemma and_then_eq_Ok: "and_then r f = Ok y \<longleftrightarrow> (\<exists>x. r = Ok x \<and> f x = Ok y)"
  by (cases r) simp_all

lemma assertString_eq_Ok: "assertString v = Ok s \<longleftrightarrow> v = VString s"
  by (cases v) (simp_all add: assertString_def)

lemma assertOvsMap_eq_Ok: "assertOvsMap v = Ok m \<longleftrightarrow> v = OvsMap m"
  by (cases v) (simp_all add: assertOvsMap_def)

lemma ifHasError_iff: "ifHasError v \<longleftrightarrow> (\<exists>s. v = VString s \<and> s \<noteq> [])"
  by (cases v) (simp_all add: ifHasError_def)

text \<open>What a built interface is, in terms of its row.\<close>

lemma fetchInterfaceLocked_Some:
  assumes "fetchInterfaceLocked w monitor ovsdbCache uuid bridgeName = Ok (Some iface)"
  shows "\<exists>ovsIface name ty goMap ids.
           map_of (ovsdbCache ''Interface'') uuid = Some ovsIface \<and>
           \<not> ifHasError (field ovsIface ''error'') \<and>
           field ovsIface ''name'' = VString name \<and>
           field ovsIface ''type'' = VString ty \<and>
           field ovsIface ''external_ids'' = OvsMap goMap \<and>
           copyExternalIDs goMap [] = Ok ids \<and>
           if_Name iface = name \<and> if_Type iface = ty \<and> if_ExternalIDs iface = ids \<and>
           Mac iface = (case map_of ids LocalEndpointIdentity of
                          Some mac \<Rightarrow> mac
                        | None \<Rightarrow> stringOrZero (field ovsIface ''mac_in_use'')) \<and>
           (case field ovsIface ''ofport'' of
              VFloat64 ofport \<Rightarrow>
                if 0 \<le> ofport
                then Ofport iface = toInt32 w ofport \<and>
                     IPMap iface = map_of (ipCache monitor) (portKey bridgeName (toInt32 w ofport))
                else Ofport iface = 0 \<and> IPMap iface = None
            | _ \<Rightarrow> Ofport iface = 0 \<and> IPMap iface = None)"
proof (cases "map_of (ovsdbCache ''Interface'') uuid")
  case None
  with assms show ?thesis by (simp add: fetchInterfaceLocked_def)
next
  case (Some ovsIface)
  with assms have noerr: "\<not> ifHasError (field ovsIface ''error'')"
    by (auto simp: fetchInterfaceLocked_def split: if_splits)
  from assms Some noerr obtain name ty goMap ids where
    n: "field ovsIface ''name'' = VString name" and
    t: "field ovsIface ''type'' = VString ty" and
    g: "field ovsIface ''external_ids'' = OvsMap goMap" and
    c: "copyExternalIDs goMap [] = Ok ids" and
    r: "iface = (let i = \<lparr>if_Name = name, if_Type = ty,
                     Mac = (case map_of ids LocalEndpointIdentity of
                              Some mac \<Rightarrow> mac
                            | None \<Rightarrow> stringOrZero (field ovsIface ''mac_in_use'')),
                     Ofport = 0, if_ExternalIDs = ids, IPMap = None\<rparr>
              in (case field ovsIface ''ofport'' of
                      VFloat64 ofport \<Rightarrow>
                        if ofport \<ge> 0
                        then i\<lparr>Ofport := toInt32 w ofport,
                                   IPMap := map_of (ipCache monitor)
                                              (portKey bridgeName (toInt32 w ofport))\<rparr>
                        else i
                    | _ \<Rightarrow> i))"
    by (auto simp: fetchInterfaceLocked_def and_then_eq_Ok assertString_eq_Ok assertOvsMap_eq_Ok Let_def)
  show ?thesis
    using Some noerr n t g c
    by (simp add: r Let_def split: ovs_value.split)
qed



lemma fetchInterfaceLocked_Ok_None_iff:
  "fetchInterfaceLocked w monitor ovsdbCache uuid bridgeName = Ok None \<longleftrightarrow>
   (case map_of (ovsdbCache ''Interface'') uuid of
      None \<Rightarrow> True
    | Some ovsIface \<Rightarrow> ifHasError (field ovsIface ''error''))"
  by (auto simp: fetchInterfaceLocked_def and_then_eq_Ok Let_def split: option.splits)

text \<open>
  Claim C8 (the ofport gates the attachment of addresses). For an interface that is
  built: when the \<open>ofport\<close> column is a number that is not negative, \<open>Ofport\<close> is
  that number converted to int32 and \<open>IPMap\<close> is the entry of the IP cache under the
  key made of the bridge name and that \<open>Ofport\<close> (the same map object, or nil when
  the cache has no such key); in every other case \<open>Ofport\<close> is zero and \<open>IPMap\<close>
  is nil.
\<close>

theorem ofport_gates_ip_attachment:
  assumes "fetchInterfaceLocked w monitor ovsdbCache uuid bridgeName = Ok (Some iface)"
      and "map_of (ovsdbCache ''Interface'') uuid = Some ovsIface"
  shows "(\<forall>ofport. field ovsIface ''ofport'' = VFloat64 ofport \<and> 0 \<le> ofport \<longrightarrow>
            Ofport iface = toInt32 w ofport \<and>
            IPMap iface = map_of (ipCache monitor) (portKey bridgeName (Ofport iface))) \<and>
         (\<not> (\<exists>ofport. field ovsIface ''ofport'' = VFloat64 ofport \<and> 0 \<le> ofport) \<longrightarrow>
            Ofport iface = 0 \<and> IPMap iface = None)"
  using fetchInterfaceLocked_Some [OF assms(1)] assms(2)
  by (auto split: ovs_value.splits if_splits)


theorem ofport_gates_ip_attachment_witness:
  "fetchInterfaceLocked world0 monitor0 cache0 ''if-1'' ''br0'' = Ok (Some builtIface0) \<and>
   map_of (cache0 ''Interface'') ''if-1'' = Some ifaceRow1 \<and>
   field ifaceRow1 ''ofport'' = VFloat64 5 \<and>
   Ofport builtIface0 = toInt32 world0 5 \<and>
   IPMap builtIface0 = map_of (ipCache monitor0) (portKey ''br0'' (Ofport builtIface0))"
proof -
  have f: "fetchInterfaceLocked world0 monitor0 cache0 ''if-1'' ''br0'' = Ok (Some builtIface0)"
    by code_simp
  have r: "map_of (cache0 ''Interface'') ''if-1'' = Some ifaceRow1"
    by (simp add: cache0_def)
  have o: "field ifaceRow1 ''ofport'' = VFloat64 5"
    by (simp add: ifaceRow1_def field_def)
  from ofport_gates_ip_attachment [where ovsdbCache = cache0, OF f r] o show ?thesis
    using f r by simp
qed


lemma and_then_eq_Err: "and_then r f = Err e \<longleftrightarrow> r = Err e \<or> (\<exists>x. r = Ok x \<and> f x = Err e)"
  by (cases r) simp_all

lemma and_then_eq_Panic: "and_then r f = Panic \<longleftrightarrow> r = Panic \<or> (\<exists>x. r = Ok x \<and> f x = Panic)"
  by (cases r) simp_all

lemma assertString_not_Err [simp]: "assertString v \<noteq> Err e"
  by (cases v) (simp_all add: assertString_def)

lemma assertOvsMap_not_Err [simp]: "assertOvsMap v \<noteq> Err e"
  by (cases v) (simp_all add: assertOvsMap_def)

lemma assertFloat64_not_Err [simp]: "assertFloat64 v \<noteq> Err e"
  by (cases v) (simp_all add: assertFloat64_def)

lemma copyExternalIDs_not_Err [simp]: "copyExternalIDs goMap ids \<noteq> Err e"
  by (induction goMap ids rule: copyExternalIDs.induct) (auto split: result.splits)

lemma collectTrunks_not_Err [simp]: "collectTrunks items acc \<noteq> Err e"
  by (induction items acc rule: collectTrunks.induct) (auto split: result.splits)

lemma fetchInterfaceLocked_not_Err [simp]:
  "fetchInterfaceLocked w monitor ovsdbCache uuid bridgeName \<noteq> Err e"
  by (auto simp: fetchInterfaceLocked_def and_then_eq_Err Let_def split: option.splits)

lemma fetchInterfaces_not_Err [simp]:
  "fetchInterfaces w monitor ovsdbCache bridgeName uuids ifaces \<noteq> Err e"
  by (induction uuids arbitrary: ifaces) (auto split: result.splits option.splits)








lemma getAgentInfo_eq_Ok:
  "getAgentInfo w monitor = Ok agentInfo \<Longrightarrow>
   \<exists>bridges. fetchBridges w monitor (ovsdbMonitor monitor) (ovsdbMonitor monitor ''Bridge'') [] = Ok bridges \<and>
      Bridges (ai_OVSInfo agentInfo) = bridges"
  by (auto simp: getAgentInfo_def Let_def and_then_eq_Ok split: result.splits)





lemma isString_iff: "isString v \<longleftrightarrow> (\<exists>s. v = VString s)"
  by (cases v) (simp_all add: isString_def)

lemma isFloat64_iff: "isFloat64 v \<longleftrightarrow> (\<exists>f. v = VFloat64 f)"
  by (cases v) (simp_all add: isFloat64_def)

lemma assertString_eq_Panic: "assertString v = Panic \<longleftrightarrow> \<not> isString v"
  by (cases v) (simp_all add: assertString_def isString_def)

lemma assertFloat64_eq_Panic: "assertFloat64 v = Panic \<longleftrightarrow> \<not> isFloat64 v"
  by (cases v) (simp_all add: assertFloat64_def isFloat64_def)

lemma assertString_VString [simp]: "assertString (VString s) = Ok s"
  by (simp add: assertString_def)

lemma assertFloat64_VFloat64 [simp]: "assertFloat64 (VFloat64 f) = Ok f"
  by (simp add: assertFloat64_def)

lemma assertOvsMap_OvsMap [simp]: "assertOvsMap (OvsMap goMap) = Ok goMap"
  by (simp add: assertOvsMap_def)

lemma copyExternalIDs_eq_Panic:
  "copyExternalIDs goMap ids = Panic \<longleftrightarrow>
   \<not> list_all (\<lambda>(name, v). isString name \<and> isString v) goMap"
proof (induction goMap arbitrary: ids)
  case Nil
  then show ?case by simp
next
  case (Cons p rest)
  obtain name v where p: "p = (name, v)" by (cases p)
  show ?case
  proof (cases "isString name \<and> isString v")
    case True
    then obtain n s where "name = VString n" "v = VString s"
      by (auto simp: isString_iff)
    with Cons.IH p True show ?thesis by simp
  next
    case False
    then have "assertString name = Panic \<or> (\<exists>n. assertString name = Ok n \<and> assertString v = Panic)"
      by (cases name; cases v) (simp_all add: assertString_def isString_def)
    with False p show ?thesis by auto
  qed
qed

lemma collectTrunks_eq_Panic:
  "collectTrunks items acc = Panic \<longleftrightarrow> \<not> list_all isFloat64 items"
proof (induction items arbitrary: acc)
  case Nil
  then show ?case by simp
next
  case (Cons item rest)
  show ?case
  proof (cases "isFloat64 item")
    case True
    then obtain f where "item = VFloat64 f" by (auto simp: isFloat64_iff)
    with Cons.IH True show ?thesis by simp
  next
    case False
    then have "assertFloat64 item = Panic" by (simp add: assertFloat64_eq_Panic)
    with False show ?thesis by simp
  qed
qed

lemma typedExternalIDs_Ok:
  assumes "typedExternalIDs v"
  obtains goMap ids where "v = OvsMap goMap" and "copyExternalIDs goMap [] = Ok ids"
proof -
  from assms obtain goMap where g: "v = OvsMap goMap"
    and l: "list_all (\<lambda>(name, v). isString name \<and> isString v) goMap"
    by (cases v) (simp_all add: typedExternalIDs_def)
  from l have "copyExternalIDs goMap [] \<noteq> Panic"
    by (simp add: copyExternalIDs_eq_Panic)
  then obtain ids where "copyExternalIDs goMap [] = Ok ids"
    by (cases "copyExternalIDs goMap []") simp_all
  with g that show ?thesis by blast
qed

lemma untypedExternalIDs_Panic:
  assumes "\<not> typedExternalIDs v"
  shows "and_then (assertOvsMap v) (\<lambda>goMap. and_then (copyExternalIDs goMap []) f) = Panic"
proof (cases v)
  case (OvsMap goMap)
  with assms have "copyExternalIDs goMap [] = Panic"
    by (simp add: copyExternalIDs_eq_Panic typedExternalIDs_def)
  with OvsMap show ?thesis by simp
qed (simp_all add: assertOvsMap_def)

lemma fetchInterfaceLocked_eq_Panic:
  "fetchInterfaceLocked w monitor ovsdbCache uuid bridgeName = Panic \<longleftrightarrow>
   (\<exists>ovsIface. map_of (ovsdbCache ''Interface'') uuid = Some ovsIface \<and>
                \<not> typedInterfaceRow ovsIface)"
proof (cases "map_of (ovsdbCache ''Interface'') uuid")
  case None
  then show ?thesis by (simp add: fetchInterfaceLocked_def)
next
  case (Some ovsIface)
  show ?thesis
  proof (cases "ifHasError (field ovsIface ''error'')")
    case True
    with Some show ?thesis by (simp add: fetchInterfaceLocked_def typedInterfaceRow_def)
  next
    case noerr: False
    show ?thesis
    proof (cases "typedInterfaceRow ovsIface")
      case True
      with noerr obtain name ty where
        n: "field ovsIface ''name'' = VString name" and t: "field ovsIface ''type'' = VString ty"
        and x: "typedExternalIDs (field ovsIface ''external_ids'')"
        by (auto simp: typedInterfaceRow_def isString_iff)
      from x obtain goMap ids where "field ovsIface ''external_ids'' = OvsMap goMap"
        and "copyExternalIDs goMap [] = Ok ids"
        by (rule typedExternalIDs_Ok)
      with Some noerr n t True show ?thesis
        by (simp add: fetchInterfaceLocked_def Let_def)
    next
      case False
      with noerr have c: "\<not> isString (field ovsIface ''name'') \<or> \<not> isString (field ovsIface ''type'')
          \<or> \<not> typedExternalIDs (field ovsIface ''external_ids'')"
        by (simp add: typedInterfaceRow_def)
      have "fetchInterfaceLocked w monitor ovsdbCache uuid bridgeName = Panic"
      proof (cases "isString (field ovsIface ''name'')")
        case False
        then have "assertString (field ovsIface ''name'') = Panic"
          by (simp add: assertString_eq_Panic)
        with Some noerr show ?thesis by (simp add: fetchInterfaceLocked_def)
      next
        case True
        then obtain name where n: "field ovsIface ''name'' = VString name"
          by (auto simp: isString_iff)
        show ?thesis
        proof (cases "isString (field ovsIface ''type'')")
          case False
          then have "assertString (field ovsIface ''type'') = Panic"
            by (simp add: assertString_eq_Panic)
          with Some noerr n show ?thesis by (simp add: fetchInterfaceLocked_def)
        next
          case True
          then obtain ty where t: "field ovsIface ''type'' = VString ty"
            by (auto simp: isString_iff)
          from c n t have "\<not> typedExternalIDs (field ovsIface ''external_ids'')"
            by (simp add: isString_iff)
          from untypedExternalIDs_Panic [OF this] Some noerr n t show ?thesis
            by (simp add: fetchInterfaceLocked_def)
        qed
      qed
      with Some False show ?thesis by simp
    qed
  qed
qed

lemma typed_row_of_table:
  "list_all (\<lambda>(uuid, row). P row) rows \<Longrightarrow> map_of rows u = Some r \<Longrightarrow> P r"
  by (auto simp: list_all_iff dest: map_of_SomeD)

lemma fetchInterfaces_not_Panic:
  "list_all (\<lambda>(uuid, row). typedInterfaceRow row) (ovsdbCache ''Interface'') \<Longrightarrow>
   fetchInterfaces w monitor ovsdbCache bridgeName uuids ifaces \<noteq> Panic"
proof (induction uuids arbitrary: ifaces)
  case Nil
  then show ?case by simp
next
  case (Cons u rest)
  have "fetchInterfaceLocked w monitor ovsdbCache u bridgeName \<noteq> Panic"
    using Cons.prems by (auto simp: fetchInterfaceLocked_eq_Panic dest: typed_row_of_table)
  with Cons show ?case
    by (auto split: result.splits option.splits)
qed

lemma fetchPortLocked_eq_Panic_typed:
  assumes "map_of (ovsdbCache ''Port'') uuid = Some ovsPort" and "typedPortRow ovsPort"
  shows "fetchPortLocked w monitor ovsdbCache uuid bridgeName = Panic \<longleftrightarrow>
         fetchInterfaces w monitor ovsdbCache bridgeName
           (listUUID (field ovsPort ''interfaces'')) [] = Panic"
proof -
  from assms(2) obtain name where n: "field ovsPort ''name'' = VString name"
    and x: "typedExternalIDs (field ovsPort ''external_ids'')"
    and t: "(case field ovsPort ''trunks'' of OvsSet goSet \<Rightarrow> list_all isFloat64 goSet | _ \<Rightarrow> True)"
    by (auto simp: typedPortRow_def isString_iff)
  from x obtain goMap ids where g: "field ovsPort ''external_ids'' = OvsMap goMap"
    and c: "copyExternalIDs goMap [] = Ok ids"
    by (rule typedExternalIDs_Ok)
  obtain ovsTrunks where tr: "(case field ovsPort ''trunks'' of
                        OvsSet goSet \<Rightarrow> collectTrunks goSet []
                      | _ \<Rightarrow> Ok []) = Ok ovsTrunks"
  proof (cases "field ovsPort ''trunks''")
    case (OvsSet goSet)
    with t have "collectTrunks goSet [] \<noteq> Panic" by (simp add: collectTrunks_eq_Panic)
    then obtain r where "collectTrunks goSet [] = Ok r"
      by (cases "collectTrunks goSet []") simp_all
    with OvsSet that show ?thesis by simp
  qed (use that in simp_all)
  show ?thesis
    using assms(1) n g c tr
    by (simp add: fetchPortLocked_def Let_def and_then_eq_Panic)
qed

lemma fetchPortLocked_eq_Panic_untyped:
  assumes "map_of (ovsdbCache ''Port'') uuid = Some ovsPort"
      and "\<not> isString (field ovsPort ''name'') \<or> \<not> typedExternalIDs (field ovsPort ''external_ids'')"
  shows "fetchPortLocked w monitor ovsdbCache uuid bridgeName = Panic"
proof (cases "isString (field ovsPort ''name'')")
  case False
  then have "assertString (field ovsPort ''name'') = Panic"
    by (simp add: assertString_eq_Panic)
  with assms(1) show ?thesis by (simp add: fetchPortLocked_def)
next
  case True
  then obtain name where n: "field ovsPort ''name'' = VString name"
    by (auto simp: isString_iff)
  from assms(2) True have "\<not> typedExternalIDs (field ovsPort ''external_ids'')" by simp
  from untypedExternalIDs_Panic [OF this] assms(1) n show ?thesis
    by (simp add: fetchPortLocked_def)
qed

lemma fetchPorts_not_Panic:
  assumes "list_all (\<lambda>(uuid, row). typedPortRow row) (ovsdbCache ''Port'')"
      and "list_all (\<lambda>(uuid, row). typedInterfaceRow row) (ovsdbCache ''Interface'')"
  shows "fetchPorts w monitor ovsdbCache bridgeName uuids ports \<noteq> Panic"
proof (induction uuids arbitrary: ports)
  case Nil
  then show ?case by simp
next
  case (Cons u rest)
  have "fetchPortLocked w monitor ovsdbCache u bridgeName \<noteq> Panic"
  proof (cases "map_of (ovsdbCache ''Port'') u")
    case None
    then show ?thesis by (simp add: fetchPortLocked_def)
  next
    case (Some ovsPort)
    with assms(1) have "typedPortRow ovsPort" by (auto dest: typed_row_of_table)
    with Some show ?thesis
      using fetchInterfaces_not_Panic [where ovsdbCache = ovsdbCache, OF assms(2)]
      by (simp add: fetchPortLocked_eq_Panic_typed)
  qed
  with Cons show ?case
    by (auto split: result.splits)
qed

lemma fetchBridgeLocked_not_Panic:
  assumes "list_all (\<lambda>(uuid, row). typedBridgeRow row) (ovsdbCache ''Bridge'')"
      and "list_all (\<lambda>(uuid, row). typedPortRow row) (ovsdbCache ''Port'')"
      and "list_all (\<lambda>(uuid, row). typedInterfaceRow row) (ovsdbCache ''Interface'')"
  shows "fetchBridgeLocked w monitor ovsdbCache uuid \<noteq> Panic"
proof (cases "map_of (ovsdbCache ''Bridge'') uuid")
  case None
  then show ?thesis by (simp add: fetchBridgeLocked_def)
next
  case (Some ovsBri)
  with assms(1) have "typedBridgeRow ovsBri" by (auto dest: typed_row_of_table)
  with Some show ?thesis
    using fetchPorts_not_Panic [where ovsdbCache = ovsdbCache, OF assms(2,3)]
    by (auto simp: fetchBridgeLocked_def typedBridgeRow_def and_then_eq_Panic assertString_eq_Panic)
qed

lemma fetchBridges_not_Panic:
  assumes "list_all (\<lambda>(uuid, row). typedBridgeRow row) (ovsdbCache ''Bridge'')"
      and "list_all (\<lambda>(uuid, row). typedPortRow row) (ovsdbCache ''Port'')"
      and "list_all (\<lambda>(uuid, row). typedInterfaceRow row) (ovsdbCache ''Interface'')"
  shows "fetchBridges w monitor ovsdbCache rows bridges \<noteq> Panic"
proof (induction rows arbitrary: bridges)
  case Nil
  then show ?case by simp
next
  case (Cons r rest)
  obtain u row where r: "r = (u, row)" by (cases r)
  from fetchBridgeLocked_not_Panic [where ovsdbCache = ovsdbCache, OF assms] Cons r show ?case
    by (auto split: result.splits)
qed

lemma getAgentInfo_not_Panic:
  assumes "typedColumns (ovsdbMonitor monitor)"
  shows "getAgentInfo w monitor \<noteq> Panic"
proof -
  have v: "fetchOvsVersionLocked (ovsdbMonitor monitor) \<noteq> Panic"
    using assms
    by (auto simp: typedColumns_def fetchOvsVersionLocked_def assertString_eq_Panic
          split: list.splits)
  have b: "fetchBridges w monitor (ovsdbMonitor monitor) (ovsdbMonitor monitor ''Bridge'') [] \<noteq> Panic"
    using assms by (intro fetchBridges_not_Panic) (simp_all add: typedColumns_def)
  from v b show ?thesis
    by (auto simp: getAgentInfo_def Let_def and_then_eq_Panic split: result.splits)
qed

lemma getAgentInfo_bad_version:
  assumes "ovsdbMonitor monitor ''Open_vSwitch'' = (uuid, raw) # rest"
      and "\<not> isString (field raw ''ovs_version'')"
  shows "getAgentInfo w monitor = Panic"
  using assms
  by (simp add: getAgentInfo_def fetchOvsVersionLocked_def assertString_eq_Panic [THEN iffD2])



text \<open>
  Claim C10 (extraction is total only for columns of the expected type). When every
  asserted column of the mirrored database has its type, the build does not panic.
  It panics when the first root row's \<open>ovs_version\<close> is not a string; the port reader
  panics on a row whose \<open>name\<close> is not a string or whose \<open>external_ids\<close> is not a
  map of strings; the interface reader panics on a row without error whose \<open>name\<close>
  or \<open>type\<close> is not a string or whose \<open>external_ids\<close> is not a map of strings. On
  the three variants of the concrete node the build panics, for every world and
  monitor.
\<close>

theorem snapshot_panics_unless_columns_typed:
  "(typedColumns (ovsdbMonitor monitor) \<longrightarrow> getAgentInfo w monitor \<noteq> Panic) \<and>
   (\<forall>uuid raw rest.
      ovsdbMonitor monitor ''Open_vSwitch'' = (uuid, raw) # rest \<and>
      \<not> isString (field raw ''ovs_version'') \<longrightarrow>
      getAgentInfo w monitor = Panic) \<and>
   (\<forall>ovsPort.
      map_of (ovsdbCache ''Port'') uuid = Some ovsPort \<and>
      (\<not> isString (field ovsPort ''name'') \<or>
       \<not> typedExternalIDs (field ovsPort ''external_ids'')) \<longrightarrow>
      fetchPortLocked w monitor ovsdbCache uuid bridgeName = Panic) \<and>
   (\<forall>ovsIface.
      map_of (ovsdbCache ''Interface'') uuid = Some ovsIface \<and>
      \<not> ifHasError (field ovsIface ''error'') \<and>
      (\<not> isString (field ovsIface ''name'') \<or> \<not> isString (field ovsIface ''type'') \<or>
       \<not> typedExternalIDs (field ovsIface ''external_ids'')) \<longrightarrow>
      fetchInterfaceLocked w monitor ovsdbCache uuid bridgeName = Panic) \<and>
   getAgentInfo w (monitor\<lparr>ovsdbMonitor := cacheBadVersion\<rparr>) = Panic \<and>
   getAgentInfo w (monitor\<lparr>ovsdbMonitor := cacheBadPort\<rparr>) = Panic \<and>
   getAgentInfo w (monitor\<lparr>ovsdbMonitor := cacheBadIface\<rparr>) = Panic"
proof (intro conjI impI allI)
  assume "typedColumns (ovsdbMonitor monitor)"
  then show "getAgentInfo w monitor \<noteq> Panic" by (rule getAgentInfo_not_Panic)
next
  fix uuid raw rest
  assume "ovsdbMonitor monitor ''Open_vSwitch'' = (uuid, raw) # rest \<and>
      \<not> isString (field raw ''ovs_version'')"
  then show "getAgentInfo w monitor = Panic"
    using getAgentInfo_bad_version by blast
next
  fix ovsPort
  assume "map_of (ovsdbCache ''Port'') uuid = Some ovsPort \<and>
      (\<not> isString (field ovsPort ''name'') \<or>
       \<not> typedExternalIDs (field ovsPort ''external_ids''))"
  then show "fetchPortLocked w monitor ovsdbCache uuid bridgeName = Panic"
    using fetchPortLocked_eq_Panic_untyped by blast
next
  fix ovsIface
  assume "map_of (ovsdbCache ''Interface'') uuid = Some ovsIface \<and>
      \<not> ifHasError (field ovsIface ''error'') \<and>
      (\<not> isString (field ovsIface ''name'') \<or> \<not> isString (field ovsIface ''type'') \<or>
       \<not> typedExternalIDs (field ovsIface ''external_ids''))"
  then show "fetchInterfaceLocked w monitor ovsdbCache uuid bridgeName = Panic"
    by (auto simp: fetchInterfaceLocked_eq_Panic typedInterfaceRow_def)
next
  show "getAgentInfo w (monitor\<lparr>ovsdbMonitor := cacheBadVersion\<rparr>) = Panic"
    by (rule getAgentInfo_bad_version [where uuid = "''ovs-1''" and raw = "Row Map.empty" and rest = "[]"])
       (simp_all add: cacheBadVersion_def field_def isString_def)
next
  have r: "map_of (cacheBadPort ''Port'') ''port-1'' =
      Some (Row [''name'' \<mapsto> VFloat64 1, ''external_ids'' \<mapsto> OvsMap [],
                 ''interfaces'' \<mapsto> UUID ''if-1''])"
    by (simp add: cacheBadPort_def)
  have p: "fetchPortLocked w m cacheBadPort ''port-1'' ''br0'' = Panic" for m
    by (rule fetchPortLocked_eq_Panic_untyped [where ovsdbCache = cacheBadPort, OF r])
       (simp add: field_def isString_def)
  show "getAgentInfo w (monitor\<lparr>ovsdbMonitor := cacheBadPort\<rparr>) = Panic"
    by (simp add: getAgentInfo_def fetchOvsVersionLocked_def fetchBridgeLocked_def p
          cacheBadPort_def [THEN fun_cong] cache0_def bridgeRow1_def field_def)
next
  have i: "fetchInterfaceLocked w m cacheBadIface ''if-1'' ''br0'' = Panic" for m
    by (simp add: fetchInterfaceLocked_eq_Panic cacheBadIface_def typedInterfaceRow_def
          field_def isString_def ifHasError_def)
  have p: "fetchPortLocked w m cacheBadIface ''port-1'' ''br0'' = Panic" for m
    by (simp add: fetchPortLocked_def i cacheBadIface_def [THEN fun_cong] cache0_def portRow1_def
          field_def Let_def)
  show "getAgentInfo w (monitor\<lparr>ovsdbMonitor := cacheBadIface\<rparr>) = Panic"
    by (simp add: getAgentInfo_def fetchOvsVersionLocked_def fetchBridgeLocked_def p
          cacheBadIface_def [THEN fun_cong] cache0_def bridgeRow1_def field_def)
qed

theorem snapshot_panics_unless_columns_typed_witness:
  "typedColumns (ovsdbMonitor monitor0) \<and> getAgentInfo world0 monitor0 \<noteq> Panic \<and>
   getAgentInfo world0 monitor0 = Ok snapshot0 \<and>
   cacheBadVersion ''Open_vSwitch'' = [(''ovs-1'', Row Map.empty)] \<and>
   getAgentInfo world0 (monitor0\<lparr>ovsdbMonitor := cacheBadVersion\<rparr>) = Panic"
proof -
  have t: "typedColumns (ovsdbMonitor monitor0)"
    by code_simp
  have s: "getAgentInfo world0 monitor0 = Ok snapshot0"
    by code_simp
  have c: "cacheBadVersion ''Open_vSwitch'' = [(''ovs-1'', Row Map.empty)]"
    by (simp add: cacheBadVersion_def)
  from snapshot_panics_unless_columns_typed [where w = world0 and monitor = monitor0]
  show ?thesis
    using t s c by simp
qed

section \<open>One attempt to synchronise\<close>

text \<open>
  Claim C2 (a failed attempt leaves the IP cache as it was), evaluated where it
  fails. On the concrete node the interface \<open>eth0\<close> is built with the map object of
  the cache entry \<open>br0-5\<close> as its \<open>IPMap\<close>; the merge writes the remote address
  10.0.0.9 into that object; the update is refused with a conflict. The attempt
  returns the error, and the address map of \<open>br0-5\<close> in the cache has changed.
\<close>

theorem failed_update_changes_cached_map:
  "fst (syncAgentInfo world0 monitor0) = Err (UpdateFailed Conflict) \<and>
   cacheContent monitor0 = [(''br0-5'', [(''10.0.0.7'', 100)])] \<and>
   cacheContent (snd (syncAgentInfo world0 monitor0)) =
     [(''br0-5'', [(''10.0.0.7'', 100), (''10.0.0.9'', 50)])]"
proof (intro conjI)
  show "fst (syncAgentInfo world0 monitor0) = Err (UpdateFailed Conflict)"
    by code_simp
  show "cacheContent monitor0 = [(''br0-5'', [(''10.0.0.7'', 100)])]"
    by code_simp
  show "cacheContent (snd (syncAgentInfo world0 monitor0)) =
     [(''br0-5'', [(''10.0.0.7'', 100), (''10.0.0.9'', 50)])]"
    by code_simp
qed

text \<open>
  Claim C3 as stated fails where the remote record does not exist: the attempt creates
  the record, returns success, and the IP cache still holds its entry.
\<close>

theorem create_keeps_cache_counterexample:
  "fst (syncAgentInfo worldNotFound monitor0) = Ok () \<and>
   ipCache (snd (syncAgentInfo worldNotFound monitor0)) = [(''br0-5'', 0)]"
proof (intro conjI)
  show "fst (syncAgentInfo worldNotFound monitor0) = Ok ()"
    by code_simp
  show "ipCache (snd (syncAgentInfo worldNotFound monitor0)) = [(''br0-5'', 0)]"
    by code_simp
qed

text \<open>
  Claim C3, amended (a successful update clears the IP cache). When an attempt returns
  success and the remote record was found, the attempt has updated it and the IP
  cache is empty afterwards. When an attempt returns success and the remote record
  was not found, the lookup said not-found, the attempt has created the record, and
  the monitor, its IP cache included, is as it was before.
\<close>

theorem successful_update_clears_cache:
  assumes "fst (syncAgentInfo w monitor) = Ok ()"
  shows "(\<forall>originAgentInfo. k8sClientGet w (agentName monitor) = Inr originAgentInfo \<longrightarrow>
            ipCache (snd (syncAgentInfo w monitor)) = [] \<and>
            cacheContent (snd (syncAgentInfo w monitor)) = []) \<and>
         (\<forall>err. k8sClientGet w (agentName monitor) = Inl err \<longrightarrow>
            err = NotFound \<and> snd (syncAgentInfo w monitor) = monitor)"
  using assms
  by (auto simp: syncAgentInfo_def cacheContent_def Let_def
        split: result.splits sum.splits if_splits option.splits prod.splits)

theorem successful_update_clears_cache_witness:
  "fst (syncAgentInfo worldUpdateOk monitor0) = Ok () \<and>
   k8sClientGet worldUpdateOk (agentName monitor0) = Inr remote0 \<and>
   ipCache (snd (syncAgentInfo worldUpdateOk monitor0)) = [] \<and>
   cacheContent (snd (syncAgentInfo worldUpdateOk monitor0)) = []"
proof -
  have f: "fst (syncAgentInfo worldUpdateOk monitor0) = Ok ()"
    by code_simp
  have g: "k8sClientGet worldUpdateOk (agentName monitor0) = Inr remote0"
    by (simp add: k8sClientGet_def worldUpdateOk_def world0_def)
  from successful_update_clears_cache [OF f] g show ?thesis
    using f by simp
qed

section \<open>The learning channel\<close>

lemma set_update_cases:
  "(k', v') \<in> set (AList.update k v xs) \<Longrightarrow> (k' = k \<and> v' = v) \<or> (k', v') \<in> set xs"
  by (induction xs) (auto split: if_splits)

text \<open>
  The body of the loop for a global unicast address: the key points to a new object
  that holds the one address; nothing else changes but the allocator.
\<close>

lemma learnAddresses_step:
  assumes "IsGlobalUnicast w ip"
  obtains m2 a where
    "learnAddresses w ((key, ip) # rest) n monitor = learnAddresses w rest (Suc n) m2"
    and "nextAddr monitor \<le> a" and "a < nextAddr m2"
    and "objects m2 a = [(ip_String w ip, time_Now w n)]"
    and "\<And>x. x < nextAddr monitor \<Longrightarrow> objects m2 x = objects monitor x"
    and "map_of (ipCache m2) = (map_of (ipCache monitor))(key \<mapsto> a)"
    and "\<And>k' a'. (k', a') \<in> set (ipCache m2) \<Longrightarrow>
           (k' = key \<and> a' = a) \<or> (k', a') \<in> set (ipCache monitor)"
proof (cases "map_of (ipCache monitor) key")
  case None
  let ?m2 = "monitor
     \<lparr>objects := (objects monitor)
          (nextAddr monitor := [], Suc (nextAddr monitor) := [(ip_String w ip, time_Now w n)]),
      nextAddr := Suc (Suc (nextAddr monitor)),
      ipCache := AList.update key (Suc (nextAddr monitor))
                   (AList.update key (nextAddr monitor) (ipCache monitor))\<rparr>"
  show ?thesis
  proof (rule that [of ?m2 "Suc (nextAddr monitor)"])
    show "learnAddresses w ((key, ip) # rest) n monitor = learnAddresses w rest (Suc n) ?m2"
      using assms None by (simp add: alloc_def Let_def)
    show "map_of (ipCache ?m2) = (map_of (ipCache monitor))(key \<mapsto> Suc (nextAddr monitor))"
      by (simp add: update_conv')
    show "\<And>k' a'. (k', a') \<in> set (ipCache ?m2) \<Longrightarrow>
           (k' = key \<and> a' = Suc (nextAddr monitor)) \<or> (k', a') \<in> set (ipCache monitor)"
      using None by (auto dest!: set_update_cases simp: map_of_eq_None_iff image_iff)
  qed simp_all
next
  case (Some a0)
  let ?m2 = "monitor
     \<lparr>objects := (objects monitor)(nextAddr monitor := [(ip_String w ip, time_Now w n)]),
      nextAddr := Suc (nextAddr monitor),
      ipCache := AList.update key (nextAddr monitor) (ipCache monitor)\<rparr>"
  show ?thesis
  proof (rule that [of ?m2 "nextAddr monitor"])
    show "learnAddresses w ((key, ip) # rest) n monitor = learnAddresses w rest (Suc n) ?m2"
      using assms Some by (simp add: alloc_def Let_def)
    show "map_of (ipCache ?m2) = (map_of (ipCache monitor))(key \<mapsto> nextAddr monitor)"
      by (simp add: update_conv')
    show "\<And>k' a'. (k', a') \<in> set (ipCache ?m2) \<Longrightarrow>
           (k' = key \<and> a' = nextAddr monitor) \<or> (k', a') \<in> set (ipCache monitor)"
      by (auto dest!: set_update_cases)
  qed simp_all
qed

lemma learnAddresses_nextAddr: "nextAddr monitor \<le> nextAddr (learnAddresses w batch n monitor)"
proof (induction batch arbitrary: n monitor)
  case Nil
  then show ?case by simp
next
  case (Cons p rest)
  obtain k ip where p: "p = (k, ip)" by (cases p)
  show ?case
  proof (cases "IsGlobalUnicast w ip")
    case False
    with Cons.IH p show ?thesis by simp
  next
    case True
    from learnAddresses_step [OF True, of k rest n monitor] obtain m2 a where
      s: "learnAddresses w ((k, ip) # rest) n monitor = learnAddresses w rest (Suc n) m2"
      and l: "nextAddr monitor \<le> a" "a < nextAddr m2"
      by metis
    have "nextAddr m2 \<le> nextAddr (learnAddresses w rest (Suc n) m2)" by (rule Cons.IH)
    with s l p show ?thesis by simp
  qed
qed

text \<open>The loop only allocates: an object that exists keeps its content.\<close>

lemma learnAddresses_objects:
  "x < nextAddr monitor \<Longrightarrow> objects (learnAddresses w batch n monitor) x = objects monitor x"
proof (induction batch arbitrary: n monitor)
  case Nil
  then show ?case by simp
next
  case (Cons p rest)
  obtain k ip where p: "p = (k, ip)" by (cases p)
  show ?case
  proof (cases "IsGlobalUnicast w ip")
    case False
    with Cons p show ?thesis by simp
  next
    case True
    from learnAddresses_step [OF True, of k rest n monitor] obtain m2 a where
      s: "learnAddresses w ((k, ip) # rest) n monitor = learnAddresses w rest (Suc n) m2"
      and l: "nextAddr monitor \<le> a" "a < nextAddr m2"
      and o: "\<And>x. x < nextAddr monitor \<Longrightarrow> objects m2 x = objects monitor x"
      by metis
    from Cons.prems l have "x < nextAddr m2" by simp
    from Cons.IH [OF this] s p o [OF Cons.prems] show ?thesis by simp
  qed
qed

text \<open>A key with no global unicast address in the batch keeps its entry.\<close>

lemma learnAddresses_other_key:
  "\<forall>ip. (key, ip) \<in> set batch \<longrightarrow> \<not> IsGlobalUnicast w ip \<Longrightarrow>
   map_of (ipCache (learnAddresses w batch n monitor)) key = map_of (ipCache monitor) key"
proof (induction batch arbitrary: n monitor)
  case Nil
  then show ?case by simp
next
  case (Cons p rest)
  obtain k ip where p: "p = (k, ip)" by (cases p)
  from Cons.prems have r: "\<forall>ip. (key, ip) \<in> set rest \<longrightarrow> \<not> IsGlobalUnicast w ip" by simp
  show ?case
  proof (cases "IsGlobalUnicast w ip")
    case False
    with Cons.IH [OF r] p show ?thesis by simp
  next
    case True
    with Cons.prems p have ne: "k \<noteq> key" by auto
    from learnAddresses_step [OF True, of k rest n monitor] obtain m2 a where
      s: "learnAddresses w ((k, ip) # rest) n monitor = learnAddresses w rest (Suc n) m2"
      and c: "map_of (ipCache m2) = (map_of (ipCache monitor))(k \<mapsto> a)"
      by metis
    from Cons.IH [OF r, of "Suc n" m2] s p c ne show ?thesis by simp
  qed
qed

lemma learnAddresses_global:
  assumes "distinct (map fst batch)" and "(key, ip) \<in> set batch" and "IsGlobalUnicast w ip"
  shows "\<exists>a n'. map_of (ipCache (learnAddresses w batch n monitor)) key = Some a \<and>
                objects (learnAddresses w batch n monitor) a = [(ip_String w ip, time_Now w n')]"
  using assms
proof (induction batch arbitrary: n monitor)
  case Nil
  then show ?case by simp
next
  case (Cons p rest)
  obtain k ip' where p: "p = (k, ip')" by (cases p)
  from Cons.prems p have d: "distinct (map fst rest)" and nk: "k \<notin> fst ` set rest" by auto
  show ?case
  proof (cases "(key, ip) \<in> set rest")
    case True
    show ?thesis
    proof (cases "IsGlobalUnicast w ip'")
      case False
      with Cons.IH [OF d True Cons.prems(3)] p show ?thesis by simp
    next
      case g: True
      from learnAddresses_step [OF g, of k rest n monitor] obtain m2 where
        s: "learnAddresses w ((k, ip') # rest) n monitor = learnAddresses w rest (Suc n) m2"
        by metis
      from Cons.IH [OF d True Cons.prems(3), of "Suc n" m2] s p show ?thesis by simp
    qed
  next
    case False
    with Cons.prems p have e: "k = key" "ip' = ip" by auto
    from nk e have r: "\<forall>ip. (key, ip) \<in> set rest \<longrightarrow> \<not> IsGlobalUnicast w ip"
      by (auto simp: image_iff)
    from learnAddresses_step [OF Cons.prems(3), of key rest n monitor] obtain m2 a where
      s: "learnAddresses w ((key, ip) # rest) n monitor = learnAddresses w rest (Suc n) m2"
      and l: "a < nextAddr m2"
      and o: "objects m2 a = [(ip_String w ip, time_Now w n)]"
      and c: "map_of (ipCache m2) = (map_of (ipCache monitor))(key \<mapsto> a)"
      by metis
    have "map_of (ipCache (learnAddresses w rest (Suc n) m2)) key = Some a"
      using learnAddresses_other_key [OF r, of "Suc n" m2] c by simp
    moreover have "objects (learnAddresses w rest (Suc n) m2) a = [(ip_String w ip, time_Now w n)]"
      using learnAddresses_objects [OF l] o by simp
    ultimately show ?thesis
      using s p e by auto
  qed
qed

text \<open>Where the entries of the cache come from after a batch.\<close>

lemma learnAddresses_entries:
  assumes "cacheAllocated monitor"
      and "(k, a) \<in> set (ipCache (learnAddresses w batch n monitor))"
  shows "((k, a) \<in> set (ipCache monitor) \<and>
          objects (learnAddresses w batch n monitor) a = objects monitor a) \<or>
         (\<exists>ip n'. (k, ip) \<in> set batch \<and> IsGlobalUnicast w ip \<and>
            objects (learnAddresses w batch n monitor) a = [(ip_String w ip, time_Now w n')])"
  using assms
proof (induction batch arbitrary: n monitor)
  case Nil
  then show ?case by simp
next
  case (Cons p rest)
  obtain key ip where p: "p = (key, ip)" by (cases p)
  show ?case
  proof (cases "IsGlobalUnicast w ip")
    case False
    with Cons.IH [OF Cons.prems(1), of n] Cons.prems(2) p show ?thesis by auto
  next
    case True
    from learnAddresses_step [OF True, of key rest n monitor] obtain m2 a2 where
      s: "learnAddresses w ((key, ip) # rest) n monitor = learnAddresses w rest (Suc n) m2"
      and l: "nextAddr monitor \<le> a2" "a2 < nextAddr m2"
      and o: "objects m2 a2 = [(ip_String w ip, time_Now w n)]"
      and f: "\<And>x. x < nextAddr monitor \<Longrightarrow> objects m2 x = objects monitor x"
      and c: "\<And>k' a'. (k', a') \<in> set (ipCache m2) \<Longrightarrow>
           (k' = key \<and> a' = a2) \<or> (k', a') \<in> set (ipCache monitor)"
      by metis
    have old: "\<And>k' a'. (k', a') \<in> set (ipCache monitor) \<Longrightarrow> a' < nextAddr monitor"
      using Cons.prems(1) by (auto simp: cacheAllocated_def list_all_iff)
    have a2: "cacheAllocated m2"
      unfolding cacheAllocated_def list_all_iff
    proof (intro ballI)
      fix x
      assume x: "x \<in> set (ipCache m2)"
      obtain k' a' where xx: "x = (k', a')" by (cases x)
      from c [of k' a'] x xx l old [of k' a'] show "case x of (key, a) \<Rightarrow> a < nextAddr m2"
        by auto
    qed
    from Cons.prems(2) s p have "(k, a) \<in> set (ipCache (learnAddresses w rest (Suc n) m2))"
      by simp
    from Cons.IH [OF a2 this]
    consider (kept) "(k, a) \<in> set (ipCache m2)"
        "objects (learnAddresses w rest (Suc n) m2) a = objects m2 a"
      | (learned) ip' n' where "(k, ip') \<in> set rest" "IsGlobalUnicast w ip'"
        "objects (learnAddresses w rest (Suc n) m2) a = [(ip_String w ip', time_Now w n')]"
      by blast
    then show ?thesis
    proof cases
      case kept
      from c [OF kept(1)] show ?thesis
      proof
        assume "k = key \<and> a = a2"
        with kept o s p True show ?thesis by auto
      next
        assume i: "(k, a) \<in> set (ipCache monitor)"
        from old [OF i] f have "objects m2 a = objects monitor a" by simp
        with kept i s p show ?thesis by simp
      qed
    next
      case learned
      with s p show ?thesis by auto
    qed
  qed
qed

lemma updateOfPortIPAddress_store:
  "ipCache (updateOfPortIPAddress w batch monitor) = ipCache (learnAddresses w batch 0 monitor)"
  "objects (updateOfPortIPAddress w batch monitor) = objects (learnAddresses w batch 0 monitor)"
  by (simp_all add: updateOfPortIPAddress_def Let_def)

text \<open>
  What one learning batch does to the IP cache. For a batch, a Go map and so with each
  key once, and a pair of it: when the address is not global unicast the cache entry
  of the key, and the address map it holds, are what they were; when it is, the key
  holds a map with that address alone, stamped with a reading of the clock. A key
  that is not in the batch keeps its entry. Every address in the cache after the
  batch was there under the same key and object before, or is a global unicast
  address of the batch: no other address enters the cache.
\<close>

theorem learning_batch_semantics:
  assumes "distinct (map fst localEndpointInfo)"
      and "cacheAllocated monitor"
      and "(bridgePort, ip) \<in> set localEndpointInfo"
  shows "(\<not> IsGlobalUnicast w ip \<longrightarrow>
            map_of (ipCache (updateOfPortIPAddress w localEndpointInfo monitor)) bridgePort =
              map_of (ipCache monitor) bridgePort \<and>
            deref (updateOfPortIPAddress w localEndpointInfo monitor)
                  (map_of (ipCache monitor) bridgePort) =
              deref monitor (map_of (ipCache monitor) bridgePort)) \<and>
         (IsGlobalUnicast w ip \<longrightarrow>
            (\<exists>a n. map_of (ipCache (updateOfPortIPAddress w localEndpointInfo monitor)) bridgePort = Some a \<and>
                   objects (updateOfPortIPAddress w localEndpointInfo monitor) a =
                     [(ip_String w ip, time_Now w n)])) \<and>
         (\<forall>k. k \<notin> fst ` set localEndpointInfo \<longrightarrow>
            map_of (ipCache (updateOfPortIPAddress w localEndpointInfo monitor)) k =
              map_of (ipCache monitor) k \<and>
            deref (updateOfPortIPAddress w localEndpointInfo monitor) (map_of (ipCache monitor) k) =
              deref monitor (map_of (ipCache monitor) k)) \<and>
         (\<forall>k a address t.
            (k, a) \<in> set (ipCache (updateOfPortIPAddress w localEndpointInfo monitor)) \<and>
            (address, t) \<in> set (objects (updateOfPortIPAddress w localEndpointInfo monitor) a) \<longrightarrow>
            ((k, a) \<in> set (ipCache monitor) \<and> (address, t) \<in> set (objects monitor a)) \<or>
            (\<exists>ip'. (k, ip') \<in> set localEndpointInfo \<and> IsGlobalUnicast w ip' \<and>
                    address = ip_String w ip'))"
proof -
  let ?m = "updateOfPortIPAddress w localEndpointInfo monitor"
  have kept: "deref ?m (map_of (ipCache monitor) k) = deref monitor (map_of (ipCache monitor) k)" for k
  proof (cases "map_of (ipCache monitor) k")
    case None
    then show ?thesis by (simp add: deref_def)
  next
    case (Some a)
    then have "(k, a) \<in> set (ipCache monitor)" by (rule map_of_SomeD)
    with assms(2) have "a < nextAddr monitor"
      by (auto simp: cacheAllocated_def list_all_iff)
    with Some show ?thesis
      by (simp add: deref_def updateOfPortIPAddress_store learnAddresses_objects)
  qed
  have one: "\<not> IsGlobalUnicast w ip \<longrightarrow>
            map_of (ipCache ?m) bridgePort = map_of (ipCache monitor) bridgePort \<and>
            deref ?m (map_of (ipCache monitor) bridgePort) =
              deref monitor (map_of (ipCache monitor) bridgePort)"
  proof
    assume ng: "\<not> IsGlobalUnicast w ip"
    have "\<forall>ip'. (bridgePort, ip') \<in> set localEndpointInfo \<longrightarrow> \<not> IsGlobalUnicast w ip'"
    proof (intro allI impI)
      fix ip'
      assume "(bridgePort, ip') \<in> set localEndpointInfo"
      with assms(1,3) have "ip' = ip"
        by (meson eq_key_imp_eq_value)
      with ng show "\<not> IsGlobalUnicast w ip'" by simp
    qed
    from learnAddresses_other_key [OF this] kept
    show "map_of (ipCache ?m) bridgePort = map_of (ipCache monitor) bridgePort \<and>
            deref ?m (map_of (ipCache monitor) bridgePort) =
              deref monitor (map_of (ipCache monitor) bridgePort)"
      by (simp add: updateOfPortIPAddress_store)
  qed
  have two: "IsGlobalUnicast w ip \<longrightarrow>
            (\<exists>a n. map_of (ipCache ?m) bridgePort = Some a \<and>
                   objects ?m a = [(ip_String w ip, time_Now w n)])"
    using learnAddresses_global [OF assms(1,3), of w 0 monitor]
    by (simp add: updateOfPortIPAddress_store)
  have three: "\<forall>k. k \<notin> fst ` set localEndpointInfo \<longrightarrow>
            map_of (ipCache ?m) k = map_of (ipCache monitor) k \<and>
            deref ?m (map_of (ipCache monitor) k) = deref monitor (map_of (ipCache monitor) k)"
  proof (intro allI impI)
    fix k
    assume "k \<notin> fst ` set localEndpointInfo"
    then have "\<forall>ip'. (k, ip') \<in> set localEndpointInfo \<longrightarrow> \<not> IsGlobalUnicast w ip'"
      by (auto simp: image_iff)
    from learnAddresses_other_key [OF this] kept
    show "map_of (ipCache ?m) k = map_of (ipCache monitor) k \<and>
            deref ?m (map_of (ipCache monitor) k) = deref monitor (map_of (ipCache monitor) k)"
      by (simp add: updateOfPortIPAddress_store)
  qed
  have four: "\<forall>k a address t.
            (k, a) \<in> set (ipCache ?m) \<and> (address, t) \<in> set (objects ?m a) \<longrightarrow>
            ((k, a) \<in> set (ipCache monitor) \<and> (address, t) \<in> set (objects monitor a)) \<or>
            (\<exists>ip'. (k, ip') \<in> set localEndpointInfo \<and> IsGlobalUnicast w ip' \<and>
                    address = ip_String w ip')"
  proof (intro allI impI)
    fix k a address t
    assume h: "(k, a) \<in> set (ipCache ?m) \<and> (address, t) \<in> set (objects ?m a)"
    then have "(k, a) \<in> set (ipCache (learnAddresses w localEndpointInfo 0 monitor))"
      by (simp add: updateOfPortIPAddress_store)
    from learnAddresses_entries [OF assms(2) this] h
    show "((k, a) \<in> set (ipCache monitor) \<and> (address, t) \<in> set (objects monitor a)) \<or>
            (\<exists>ip'. (k, ip') \<in> set localEndpointInfo \<and> IsGlobalUnicast w ip' \<and>
                    address = ip_String w ip')"
      by (auto simp: updateOfPortIPAddress_store)
  qed
  from one two three four show ?thesis by blast
qed

theorem learning_batch_semantics_witness:
  "distinct (map fst batch0) \<and> cacheAllocated monitor0 \<and>
   (''br0-6'', [127, 0, 0, 1]) \<in> set batch0 \<and> \<not> IsGlobalUnicast world0 [127, 0, 0, 1] \<and>
   map_of (ipCache (updateOfPortIPAddress world0 batch0 monitor0)) ''br0-6'' = None \<and>
   (''br0-5'', [10, 0, 0, 8]) \<in> set batch0 \<and> IsGlobalUnicast world0 [10, 0, 0, 8] \<and>
   cacheContent (updateOfPortIPAddress world0 batch0 monitor0) =
     [(''br0-5'', [(''10.0.0.8'', 100)]), (''br0-7'', [(''10.0.0.1'', 101)])]"
proof -
  have d: "distinct (map fst batch0)" by (simp add: batch0_def)
  have c: "cacheAllocated monitor0" by code_simp
  have l: "(''br0-6'', [127, 0, 0, 1]) \<in> set batch0" by (simp add: batch0_def)
  have g: "(''br0-5'', [10, 0, 0, 8]) \<in> set batch0" by (simp add: batch0_def)
  have nl: "\<not> IsGlobalUnicast world0 [127, 0, 0, 1]" by code_simp
  have gl: "IsGlobalUnicast world0 [10, 0, 0, 8]" by code_simp
  have m: "map_of (ipCache monitor0) ''br0-6'' = None" by (simp add: monitor0_def)
  have v: "cacheContent (updateOfPortIPAddress world0 batch0 monitor0) =
     [(''br0-5'', [(''10.0.0.8'', 100)]), (''br0-7'', [(''10.0.0.1'', 101)])]"
    by code_simp
  from learning_batch_semantics [OF d c l, of world0] learning_batch_semantics [OF d c g, of world0]
  show ?thesis
    using d c l g nl gl m v by simp
qed

text \<open>
  Claim C6 (semantics of a learning batch; no address that is not global unicast in
  the IP cache), evaluated where its last sentence fails. The learning path filters:
  a batch that offers the loopback address 127.0.0.1 for \<open>br0-5\<close> leaves the cache as
  it was. The merge does not: the remote record holds 127.0.0.1 for \<open>eth0\<close>, whose
  \<open>IPMap\<close> is the map object of the cache entry \<open>br0-5\<close>; the merge writes the
  address into that object, the update is refused with a conflict, and the attempt
  returns the error with 127.0.0.1 in the IP cache.
\<close>

theorem failed_update_leaves_loopback_cached:
  "\<not> IsGlobalUnicast worldLoopback [127, 0, 0, 1] \<and>
   ip_String worldLoopback [127, 0, 0, 1] = ''127.0.0.1'' \<and>
   cacheContent monitor0 = [(''br0-5'', [(''10.0.0.7'', 100)])] \<and>
   cacheContent (updateOfPortIPAddress worldLoopback [(''br0-5'', [127, 0, 0, 1])] monitor0) =
     [(''br0-5'', [(''10.0.0.7'', 100)])] \<and>
   k8sClientGet worldLoopback (agentName monitor0) = Inr remoteLoopback \<and>
   fst (syncAgentInfo worldLoopback monitor0) = Err (UpdateFailed Conflict) \<and>
   cacheContent (snd (syncAgentInfo worldLoopback monitor0)) =
     [(''br0-5'', [(''10.0.0.7'', 100), (''127.0.0.1'', 50)])]"
proof (intro conjI)
  show "\<not> IsGlobalUnicast worldLoopback [127, 0, 0, 1]"
    by code_simp
  show "ip_String worldLoopback [127, 0, 0, 1] = ''127.0.0.1''"
    by code_simp
  show "cacheContent monitor0 = [(''br0-5'', [(''10.0.0.7'', 100)])]"
    by code_simp
  show "cacheContent (updateOfPortIPAddress worldLoopback [(''br0-5'', [127, 0, 0, 1])] monitor0) =
     [(''br0-5'', [(''10.0.0.7'', 100)])]"
    by code_simp
  show "k8sClientGet worldLoopback (agentName monitor0) = Inr remoteLoopback"
    by (simp add: k8sClientGet_def worldLoopback_def world0_def)
  show "fst (syncAgentInfo worldLoopback monitor0) = Err (UpdateFailed Conflict)"
    by code_simp
  show "cacheContent (snd (syncAgentInfo worldLoopback monitor0)) =
     [(''br0-5'', [(''10.0.0.7'', 100), (''127.0.0.1'', 50)])]"
    by code_simp
qed

section \<open>The trigger of a synchronisation\<close>

lemma missing_in_code:
  "list_ex (\<lambda>(ip, t). map_of (IPMap iface) ip = None) c \<longleftrightarrow>
   list_ex (\<lambda>(ip, t). ip \<notin> fst ` set (IPMap iface)) c"
  by (simp add: map_of_eq_None_iff)

lemma cachedUnder_pair:
  "cachedUnder monitor (bridgeName, iface) \<longleftrightarrow>
   map_of (ipCache monitor) (portKey bridgeName (Ofport iface)) \<noteq> None"
  by (simp add: cachedUnder_def)

lemma cachedAddressMissing_pair:
  "cachedAddressMissing monitor (bridgeName, iface) \<longleftrightarrow>
   (case map_of (ipCache monitor) (portKey bridgeName (Ofport iface)) of
      None \<Rightarrow> False
    | Some a \<Rightarrow> list_ex (\<lambda>(ip, t). ip \<notin> fst ` set (IPMap iface)) (objects monitor a))"
  by (simp add: cachedAddressMissing_def split: option.split)

lemma scanInterfaces_eq:
  "scanInterfaces monitor bridgeName ifaces n =
     (if list_ex (cachedAddressMissing monitor) (map (Pair bridgeName) ifaces) then None
      else Some (n + length (filter (cachedUnder monitor) (map (Pair bridgeName) ifaces))))"
proof (induction ifaces arbitrary: n)
  case Nil
  then show ?case by simp
next
  case (Cons iface rest)
  show ?case
  proof (cases "map_of (ipCache monitor) (portKey bridgeName (Ofport iface))")
    case None
    with Cons.IH show ?thesis
      by (simp add: cachedAddressMissing_pair cachedUnder_pair)
  next
    case (Some a)
    with Cons.IH show ?thesis
      by (simp add: cachedAddressMissing_pair cachedUnder_pair missing_in_code)
  qed
qed

lemma scanPorts_eq:
  "scanPorts monitor bridgeName ports n =
     (if list_ex (cachedAddressMissing monitor)
           (concat (map (\<lambda>port. map (Pair bridgeName) (Interfaces port)) ports)) then None
      else Some (n + length (filter (cachedUnder monitor)
           (concat (map (\<lambda>port. map (Pair bridgeName) (Interfaces port)) ports)))))"
proof (induction ports arbitrary: n)
  case Nil
  then show ?case by simp
next
  case (Cons port rest)
  then show ?case
    by (simp add: scanInterfaces_eq)
qed

lemma scanBridges_eq:
  "scanBridges monitor bridges n =
     (if list_ex (cachedAddressMissing monitor)
           (concat (map (\<lambda>bridge.
              concat (map (\<lambda>port. map (Pair (br_Name bridge)) (Interfaces port)) (Ports bridge)))
              bridges)) then None
      else Some (n + length (filter (cachedUnder monitor)
           (concat (map (\<lambda>bridge.
              concat (map (\<lambda>port. map (Pair (br_Name bridge)) (Interfaces port)) (Ports bridge)))
              bridges)))))"
proof (induction bridges arbitrary: n)
  case Nil
  then show ?case by simp
next
  case (Cons bridge rest)
  then show ?case
    by (simp add: scanPorts_eq)
qed

lemma cachedAddressMissing_iff:
  "cachedAddressMissing monitor bi \<longleftrightarrow>
   (\<exists>a ip t. map_of (ipCache monitor) (portKey (fst bi) (Ofport (snd bi))) = Some a \<and>
       (ip, t) \<in> set (objects monitor a) \<and> ip \<notin> fst ` set (IPMap (snd bi)))"
  by (cases "map_of (ipCache monitor) (portKey (fst bi) (Ofport (snd bi)))")
     (auto simp: cachedAddressMissing_def list_ex_iff)

lemma learnAddresses_queue:
  "syncQueue (learnAddresses w batch n monitor) = syncQueue monitor \<and>
   agentName (learnAddresses w batch n monitor) = agentName monitor"
proof (induction batch arbitrary: n monitor)
  case Nil
  then show ?case by simp
next
  case (Cons p rest)
  obtain k ip where p: "p = (k, ip)" by (cases p)
  show ?case
  proof (cases "IsGlobalUnicast w ip")
    case False
    with Cons.IH p show ?thesis by simp
  next
    case True
    show ?thesis
    proof (cases "map_of (ipCache monitor) k")
      case None
      with True p show ?thesis
        by (simp add: alloc_def Let_def Cons.IH)
    next
      case (Some a)
      with True p show ?thesis
        by (simp add: alloc_def Let_def Cons.IH)
    qed
  qed
qed

text \<open>
  Claim C4 as stated fails on the concrete node against the second remote record.
  The cached address 10.0.0.7 of \<open>br0-5\<close> is in the remote interface's map; the cache
  holds one address and the remote record three, so the claim's trigger holds; the
  code counts one cached remote interface against one cache entry and does not ask
  for a synchronisation.
\<close>

theorem address_counts_counterexample:
  "\<not> shouldSyncOnLearnIPLocked worldTwo monitor0 \<and>
   claimedShouldSync worldTwo monitor0 \<and>
   cacheAddressCount monitor0 = 1 \<and> remoteAddressCount remoteTwo = 3"
proof (intro conjI)
  show "\<not> shouldSyncOnLearnIPLocked worldTwo monitor0" by code_simp
  show "claimedShouldSync worldTwo monitor0" by code_simp
  show "cacheAddressCount monitor0 = 1" by code_simp
  show "remoteAddressCount remoteTwo = 3" by code_simp
qed

text \<open>
  Claim C4, amended (when learning asks for a synchronisation).
  \<open>shouldSyncOnLearnIPLocked\<close> returns true exactly when the remote fetch fails, or
  some address cached under the key of an interface of the remote record is absent
  from that interface's \<open>IPMap\<close>, or the number of interfaces of the remote record
  whose key has an entry in the IP cache differs from the number of entries of the IP
  cache. After a learning batch the agent's name is added to the queue exactly when
  the function returns true on the cache as the batch left it.
\<close>

theorem sync_on_learn_trigger:
  "(shouldSyncOnLearnIPLocked w monitor \<longleftrightarrow>
      (\<exists>err. k8sClientGet w (agentName monitor) = Inl err) \<or>
      (\<exists>agentInfo. k8sClientGet w (agentName monitor) = Inr agentInfo \<and>
         ((\<exists>bi a ip t. bi \<in> set (remoteInterfaces agentInfo) \<and>
              map_of (ipCache monitor) (portKey (fst bi) (Ofport (snd bi))) = Some a \<and>
              (ip, t) \<in> set (objects monitor a) \<and> ip \<notin> fst ` set (IPMap (snd bi))) \<or>
          cachedInterfaceCount monitor agentInfo \<noteq> length (ipCache monitor)))) \<and>
   syncQueue (updateOfPortIPAddress w localEndpointInfo monitor) =
     (if shouldSyncOnLearnIPLocked w (learnAddresses w localEndpointInfo 0 monitor)
      then syncQueue (learnAddresses w localEndpointInfo 0 monitor) @ [agentName monitor]
      else syncQueue (learnAddresses w localEndpointInfo 0 monitor)) \<and>
   syncQueue (learnAddresses w localEndpointInfo 0 monitor) = syncQueue monitor"
proof (intro conjI)
  show "shouldSyncOnLearnIPLocked w monitor \<longleftrightarrow>
      (\<exists>err. k8sClientGet w (agentName monitor) = Inl err) \<or>
      (\<exists>agentInfo. k8sClientGet w (agentName monitor) = Inr agentInfo \<and>
         ((\<exists>bi a ip t. bi \<in> set (remoteInterfaces agentInfo) \<and>
              map_of (ipCache monitor) (portKey (fst bi) (Ofport (snd bi))) = Some a \<and>
              (ip, t) \<in> set (objects monitor a) \<and> ip \<notin> fst ` set (IPMap (snd bi))) \<or>
          cachedInterfaceCount monitor agentInfo \<noteq> length (ipCache monitor)))"
  proof (cases "k8sClientGet w (agentName monitor)")
    case (Inl err)
    then show ?thesis by (simp add: shouldSyncOnLearnIPLocked_def)
  next
    case (Inr agentInfo)
    have c: "shouldSyncOnLearnIPLocked w monitor \<longleftrightarrow>
        list_ex (cachedAddressMissing monitor) (remoteInterfaces agentInfo) \<or>
        cachedInterfaceCount monitor agentInfo \<noteq> length (ipCache monitor)"
      using Inr
      by (simp add: shouldSyncOnLearnIPLocked_def scanBridges_eq remoteInterfaces_def
            cachedInterfaceCount_def)
    have m: "list_ex (cachedAddressMissing monitor) (remoteInterfaces agentInfo) \<longleftrightarrow>
        (\<exists>bi a ip t. bi \<in> set (remoteInterfaces agentInfo) \<and>
              map_of (ipCache monitor) (portKey (fst bi) (Ofport (snd bi))) = Some a \<and>
              (ip, t) \<in> set (objects monitor a) \<and> ip \<notin> fst ` set (IPMap (snd bi)))"
      unfolding list_ex_iff cachedAddressMissing_iff by blast
    show ?thesis
      unfolding c m using Inr by simp
  qed
  show "syncQueue (learnAddresses w localEndpointInfo 0 monitor) = syncQueue monitor"
    by (simp add: learnAddresses_queue)
  show "syncQueue (updateOfPortIPAddress w localEndpointInfo monitor) =
     (if shouldSyncOnLearnIPLocked w (learnAddresses w localEndpointInfo 0 monitor)
      then syncQueue (learnAddresses w localEndpointInfo 0 monitor) @ [agentName monitor]
      else syncQueue (learnAddresses w localEndpointInfo 0 monitor))"
    by (simp add: updateOfPortIPAddress_def Let_def learnAddresses_queue)
qed

theorem sync_on_learn_trigger_witness:
  "k8sClientGet world0 (agentName monitor0) = Inr remote0 \<and>
   (''br0'', remoteIface0) \<in> set (remoteInterfaces remote0) \<and>
   map_of (ipCache monitor0) (portKey ''br0'' (Ofport remoteIface0)) = Some 0 \<and>
   (''10.0.0.7'', 100) \<in> set (objects monitor0 0) \<and>
   ''10.0.0.7'' \<notin> fst ` set (IPMap remoteIface0) \<and>
   shouldSyncOnLearnIPLocked world0 monitor0 \<and>
   syncQueue (updateOfPortIPAddress world0 batch0 monitor0) = [''agent1'']"
proof -
  have g: "k8sClientGet world0 (agentName monitor0) = Inr remote0"
    by (simp add: k8sClientGet_def world0_def)
  have i: "(''br0'', remoteIface0) \<in> set (remoteInterfaces remote0)"
    by (simp add: remoteInterfaces_def remote0_def)
  have k: "map_of (ipCache monitor0) (portKey ''br0'' (Ofport remoteIface0)) = Some 0"
    by code_simp
  have o: "(''10.0.0.7'', 100) \<in> set (objects monitor0 0)"
    by (simp add: monitor0_def)
  have n: "''10.0.0.7'' \<notin> fst ` set (IPMap remoteIface0)"
    by (simp add: remoteIface0_def)
  have s: "shouldSyncOnLearnIPLocked world0 monitor0"
    using sync_on_learn_trigger [of world0 monitor0 batch0] g i k o n
    by (metis fst_conv snd_conv)
  have q: "syncQueue (updateOfPortIPAddress world0 batch0 monitor0) = [''agent1'']"
    by code_simp
  from g i k o n s q show ?thesis by simp
qed

section \<open>The merge with the remote record\<close>

lemma putIP_fields [simp]:
  "nextAddr (putIP a key v m) = nextAddr m"
  "ipCache (putIP a key v m) = ipCache m"
  "objects (putIP a key v m) = (objects m)(a := AList.update key v (objects m a))"
  by (simp_all add: putIP_def)

text \<open>The inner loop on an interface whose map is an object: the object gains the
  remote keys it does not have; nothing else changes.\<close>

lemma mergeIPMap_object:
  "\<exists>m'. mergeIPMap (Some a) es (Some a) m = (Some a, m') \<and>
        nextAddr m' = nextAddr m \<and> ipCache m' = ipCache m \<and>
        (\<forall>x. x \<noteq> a \<longrightarrow> objects m' x = objects m x) \<and>
        map_of (objects m' a) = map_of es ++ map_of (objects m a)"
proof (induction es arbitrary: m)
  case Nil
  then show ?case by simp
next
  case (Cons e rest)
  obtain key v where e: "e = (key, v)" by (cases e)
  let ?m2 = "if lookupIP m (Some a) key = None then putIP a key v m else m"
  from Cons.IH [of ?m2] obtain m' where
    r: "mergeIPMap (Some a) rest (Some a) ?m2 = (Some a, m')"
    and n: "nextAddr m' = nextAddr ?m2" and c: "ipCache m' = ipCache ?m2"
    and f: "\<forall>x. x \<noteq> a \<longrightarrow> objects m' x = objects ?m2 x"
    and o: "map_of (objects m' a) = map_of rest ++ map_of (objects ?m2 a)"
    by blast
  have s: "mergeIPMap (Some a) (e # rest) (Some a) m = (Some a, m')"
    using r e by (simp add: Let_def)
  have o': "map_of (objects m' a) = map_of (e # rest) ++ map_of (objects m a)"
  proof (cases "map_of (objects m a) key")
    case None
    then have "map_of (objects ?m2 a) = (map_of (objects m a))(key \<mapsto> v)"
      by (simp add: lookupIP_def update_conv')
    with o None e show ?thesis
      by (auto simp: map_add_def fun_eq_iff split: option.splits)
  next
    case (Some v0)
    then have "objects ?m2 a = objects m a"
      by (simp add: lookupIP_def)
    with o Some e show ?thesis
      by (auto simp: map_add_def fun_eq_iff split: option.splits)
  qed
  have n': "nextAddr m' = nextAddr m" using n by simp
  have c': "ipCache m' = ipCache m" using c by simp
  have f': "\<forall>x. x \<noteq> a \<longrightarrow> objects m' x = objects m x" using f by simp
  from s n' c' f' o' show ?case by blast
qed

text \<open>The inner loop while the copy's map is nil and the snapshot's is an object:
  every remote entry is written.\<close>

lemma mergeIPMap_nil_copy:
  "\<exists>m'. mergeIPMap None es (Some a) m = (Some a, m') \<and>
        nextAddr m' = nextAddr m \<and> ipCache m' = ipCache m \<and>
        (\<forall>x. x \<noteq> a \<longrightarrow> objects m' x = objects m x) \<and>
        map_of (objects m' a) = map_of (objects m a) ++ map_of (rev es)"
proof (induction es arbitrary: m)
  case Nil
  then show ?case by simp
next
  case (Cons e rest)
  obtain key v where e: "e = (key, v)" by (cases e)
  from Cons.IH [of "putIP a key v m"] obtain m' where
    r: "mergeIPMap None rest (Some a) (putIP a key v m) = (Some a, m')"
    and n: "nextAddr m' = nextAddr m" and c: "ipCache m' = ipCache m"
    and f: "\<forall>x. x \<noteq> a \<longrightarrow> objects m' x = objects (putIP a key v m) x"
    and o: "map_of (objects m' a) = map_of (objects (putIP a key v m) a) ++ map_of (rev rest)"
    by auto
  have s: "mergeIPMap None (e # rest) (Some a) m = (Some a, m')"
    using r e by (simp add: Let_def lookupIP_def)
  have o': "map_of (objects m' a) = map_of (objects m a) ++ map_of (rev (e # rest))"
    using o e by (auto simp: update_conv' map_add_def fun_eq_iff split: option.splits)
  have f': "\<forall>x. x \<noteq> a \<longrightarrow> objects m' x = objects m x" using f by simp
  from s n c f' o' show ?case by blast
qed

text \<open>The inner loop on an interface whose map is nil: with no remote entry nothing
  happens; otherwise a new object holds the remote entries.\<close>

lemma mergeIPMap_nil:
  "es \<noteq> [] \<Longrightarrow>
   \<exists>m'. mergeIPMap None es None m = (Some (nextAddr m), m') \<and>
        nextAddr m' = Suc (nextAddr m) \<and> ipCache m' = ipCache m \<and>
        (\<forall>x. x \<noteq> nextAddr m \<longrightarrow> objects m' x = objects m x) \<and>
        map_of (objects m' (nextAddr m)) = map_of (rev es)"
proof (cases es)
  case Nil
  assume "es \<noteq> []"
  with Nil show ?thesis by simp
next
  case (Cons e rest)
  obtain key v where e: "e = (key, v)" by (cases e)
  let ?m1 = "snd (alloc [] m)"
  let ?a = "nextAddr m"
  from mergeIPMap_nil_copy [of rest ?a "putIP ?a key v ?m1"] obtain m' where
    r: "mergeIPMap None rest (Some ?a) (putIP ?a key v ?m1) = (Some ?a, m')"
    and n: "nextAddr m' = Suc (nextAddr m)" and c: "ipCache m' = ipCache m"
    and f: "\<forall>x. x \<noteq> ?a \<longrightarrow> objects m' x = objects (putIP ?a key v ?m1) x"
    and o: "map_of (objects m' ?a) = map_of (objects (putIP ?a key v ?m1) ?a) ++ map_of (rev rest)"
    by (auto simp: alloc_def)
  have s: "mergeIPMap None es None m = (Some ?a, m')"
    using r e Cons by (simp add: Let_def lookupIP_def alloc_def)
  have "map_of (objects m' ?a) = map_of (rev es)"
    using o e Cons by (auto simp: alloc_def map_add_def fun_eq_iff split: option.splits)
  moreover have "\<forall>x. x \<noteq> ?a \<longrightarrow> objects m' x = objects m x"
    using f by (simp add: alloc_def)
  ultimately show ?thesis
    using s n c by blast
qed

text \<open>The inner loop as \<open>mergeAgentInfo\<close> starts it: the copy and the snapshot's field
  are the same reference.\<close>

lemma mergeIPMap_same:
  obtains ref' m' where
    "mergeIPMap ref es ref m = (ref', m')"
    and "ipCache m' = ipCache m" and "nextAddr m \<le> nextAddr m'"
    and "\<And>x. x < nextAddr m \<Longrightarrow> Some x \<noteq> ref \<Longrightarrow> objects m' x = objects m x"
    and "\<And>a. ref = Some a \<Longrightarrow>
           ref' = Some a \<and> map_of (objects m' a) = map_of es ++ map_of (objects m a)"
    and "ref = None \<Longrightarrow> es = [] \<Longrightarrow> ref' = None \<and> m' = m"
    and "ref = None \<Longrightarrow> es \<noteq> [] \<Longrightarrow>
           ref' = Some (nextAddr m) \<and> nextAddr m' = Suc (nextAddr m) \<and>
           map_of (objects m' (nextAddr m)) = map_of (rev es)"
proof (cases ref)
  case (Some a)
  from mergeIPMap_object [of a es m] obtain m' where
    "mergeIPMap (Some a) es (Some a) m = (Some a, m')"
    "nextAddr m' = nextAddr m" "ipCache m' = ipCache m"
    "\<forall>x. x \<noteq> a \<longrightarrow> objects m' x = objects m x"
    "map_of (objects m' a) = map_of es ++ map_of (objects m a)"
    by blast
  with Some show ?thesis
    by (intro that [of "Some a" m']) auto
next
  case None
  show ?thesis
  proof (cases "es = []")
    case True
    with None show ?thesis
      by (intro that [of None m]) auto
  next
    case False
    from mergeIPMap_nil [OF False, of m] obtain m' where
      "mergeIPMap None es None m = (Some (nextAddr m), m')"
      "nextAddr m' = Suc (nextAddr m)" "ipCache m' = ipCache m"
      "\<forall>x. x \<noteq> nextAddr m \<longrightarrow> objects m' x = objects m x"
      "map_of (objects m' (nextAddr m)) = map_of (rev es)"
      by blast
    with None False show ?thesis
      by (intro that [of "Some (nextAddr m)" m']) auto
  qed
qed

text \<open>One step of the flat loop.\<close>

lemma mergeFlat_Cons_None:
  "getCpIntf bn i R = None \<Longrightarrow>
   mergeFlat R ((bn, i) # rest) m =
     ((bn, i) # fst (mergeFlat R rest m), snd (mergeFlat R rest m))"
  by (simp add: Let_def split: prod.splits)

lemma mergeFlat_Cons_Some:
  "getCpIntf bn i R = Some mt \<Longrightarrow> mergeIPMap (IPMap i) (IPMap mt) (IPMap i) m = (ref, m1) \<Longrightarrow>
   mergeFlat R ((bn, i) # rest) m =
     ((bn, i\<lparr>IPMap := ref\<rparr>) # fst (mergeFlat R rest m1), snd (mergeFlat R rest m1))"
  by (simp add: Let_def split: prod.splits)

lemma mergeFlat_basic:
  "length (fst (mergeFlat R xs m)) = length xs \<and>
   nextAddr m \<le> nextAddr (snd (mergeFlat R xs m)) \<and>
   ipCache (snd (mergeFlat R xs m)) = ipCache m"
proof (induction xs arbitrary: m)
  case Nil
  then show ?case by simp
next
  case (Cons x rest)
  obtain bn i where x: "x = (bn, i)" by (cases x)
  show ?case
  proof (cases "getCpIntf bn i R")
    case None
    with Cons.IH [of m] x show ?thesis by (simp add: mergeFlat_Cons_None del: mergeFlat.simps)
  next
    case (Some mt)
    obtain ref m1 where s: "mergeIPMap (IPMap i) (IPMap mt) (IPMap i) m = (ref, m1)"
      and c: "ipCache m1 = ipCache m" and n: "nextAddr m \<le> nextAddr m1"
      by (rule mergeIPMap_same [of "IPMap i" "IPMap mt" m]) blast
    from Cons.IH [of m1] c n x show ?thesis
      by (simp add: mergeFlat_Cons_Some [OF Some s] del: mergeFlat.simps)
  qed
qed

text \<open>An object that no matched interface points to keeps its content.\<close>

lemma mergeFlat_frame:
  assumes "a < nextAddr m"
      and "\<And>bn i. (bn, i) \<in> set xs \<Longrightarrow> IPMap i = Some a \<Longrightarrow> getCpIntf bn i R = None"
  shows "objects (snd (mergeFlat R xs m)) a = objects m a"
  using assms
proof (induction xs arbitrary: m)
  case Nil
  then show ?case by simp
next
  case (Cons x rest)
  obtain bn i where x: "x = (bn, i)" by (cases x)
  have r: "\<And>bn i. (bn, i) \<in> set rest \<Longrightarrow> IPMap i = Some a \<Longrightarrow> getCpIntf bn i R = None"
    using Cons.prems(2) by simp
  show ?case
  proof (cases "getCpIntf bn i R")
    case None
    with Cons.IH [OF Cons.prems(1) r] x show ?thesis
      by (simp add: mergeFlat_Cons_None del: mergeFlat.simps)
  next
    case (Some mt)
    with Cons.prems(2) [of bn i] x have ne: "Some a \<noteq> IPMap i" by auto
    obtain ref m1 where s: "mergeIPMap (IPMap i) (IPMap mt) (IPMap i) m = (ref, m1)"
      and n: "nextAddr m \<le> nextAddr m1"
      and f: "\<And>x. x < nextAddr m \<Longrightarrow> Some x \<noteq> IPMap i \<Longrightarrow> objects m1 x = objects m x"
      by (rule mergeIPMap_same [of "IPMap i" "IPMap mt" m]) blast
    from Cons.prems(1) n have "a < nextAddr m1" by simp
    from Cons.IH [OF this r] f [OF Cons.prems(1) ne] x show ?thesis
      by (simp add: mergeFlat_Cons_Some [OF Some s] del: mergeFlat.simps)
  qed
qed

lemma getCpIntf_by_key:
  "Ofport i = Ofport i' \<Longrightarrow> getCpIntf bn i R = getCpIntf bn i' R"
  by (simp add: getCpIntf_def)

lemma map_add_twice: "f ++ (f ++ g) = f ++ g"
  by (simp add: map_add_def fun_eq_iff split: option.splits)

text \<open>An object that a matched interface points to holds, after the loop, what it
  held before and the remote keys it did not have.\<close>

lemma mergeFlat_content:
  assumes "\<And>bn i a. (bn, i) \<in> set xs \<Longrightarrow> IPMap i = Some a \<Longrightarrow> a < nextAddr m"
      and "\<And>bn i bn' i' a. (bn, i) \<in> set xs \<Longrightarrow> (bn', i') \<in> set xs \<Longrightarrow>
             IPMap i = Some a \<Longrightarrow> IPMap i' = Some a \<Longrightarrow> bn = bn' \<and> Ofport i = Ofport i'"
      and "(bn, i) \<in> set xs" and "IPMap i = Some a" and "getCpIntf bn i R = Some mt"
  shows "map_of (objects (snd (mergeFlat R xs m)) a) = map_of (IPMap mt) ++ map_of (objects m a)"
  using assms
proof (induction xs arbitrary: m bn i)
  case Nil
  then show ?case by simp
next
  case (Cons x rest)
  obtain bn0 i0 where x: "x = (bn0, i0)" by (cases x)
  from Cons.prems(1) [OF Cons.prems(3,4)] have am: "a < nextAddr m" .
  have sh: "\<And>bn i bn' i' a. (bn, i) \<in> set rest \<Longrightarrow> (bn', i') \<in> set rest \<Longrightarrow>
             IPMap i = Some a \<Longrightarrow> IPMap i' = Some a \<Longrightarrow> bn = bn' \<and> Ofport i = Ofport i'"
    using Cons.prems(2) by (meson list.set_intros(2))
  have wf: "\<And>bn i a. (bn, i) \<in> set rest \<Longrightarrow> IPMap i = Some a \<Longrightarrow> a < nextAddr m"
    using Cons.prems(1) by (meson list.set_intros(2))
  show ?case
  proof (cases "IPMap i0 = Some a")
    case True
    have "(bn0, i0) \<in> set (x # rest)" using x by simp
    from Cons.prems(2) [OF this Cons.prems(3) True Cons.prems(4)]
    have same: "bn0 = bn" "Ofport i0 = Ofport i" by simp_all
    then have g0: "getCpIntf bn0 i0 R = Some mt"
      using Cons.prems(5) getCpIntf_by_key [of i0 i bn R] by simp
    obtain ref m1 where s: "mergeIPMap (IPMap i0) (IPMap mt) (IPMap i0) m = (ref, m1)"
      and n: "nextAddr m \<le> nextAddr m1"
      and o: "\<And>a. IPMap i0 = Some a \<Longrightarrow>
           ref = Some a \<and> map_of (objects m1 a) = map_of (IPMap mt) ++ map_of (objects m a)"
      by (rule mergeIPMap_same [of "IPMap i0" "IPMap mt" m]) blast
    from o [OF True] have o1: "map_of (objects m1 a) = map_of (IPMap mt) ++ map_of (objects m a)"
      by simp
    have wf1: "\<And>bn i a. (bn, i) \<in> set rest \<Longrightarrow> IPMap i = Some a \<Longrightarrow> a < nextAddr m1"
      using wf n by (meson less_le_trans)
    have step: "snd (mergeFlat R (x # rest) m) = snd (mergeFlat R rest m1)"
      using x by (simp add: mergeFlat_Cons_Some [OF g0 s] del: mergeFlat.simps)
    show ?thesis
    proof (cases "\<exists>bn' i'. (bn', i') \<in> set rest \<and> IPMap i' = Some a")
      case True
      then obtain bn' i' where r: "(bn', i') \<in> set rest" and a': "IPMap i' = Some a" by blast
      from r have "(bn', i') \<in> set (x # rest)" by simp
      from Cons.prems(2) [OF this Cons.prems(3) a' Cons.prems(4)]
      have "bn' = bn" "Ofport i' = Ofport i" by simp_all
      then have g': "getCpIntf bn' i' R = Some mt"
        using Cons.prems(5) getCpIntf_by_key [of i' i bn R] by simp
      have e1: "map_of (objects (snd (mergeFlat R rest m1)) a) =
            map_of (IPMap mt) ++ map_of (objects m1 a)"
        by (rule Cons.IH [OF wf1 sh r a' g'])
      have e2: "map_of (IPMap mt) ++ map_of (objects m1 a) =
            map_of (IPMap mt) ++ map_of (objects m a)"
        by (simp only: o1 map_add_twice)
      show ?thesis
        by (simp only: step e1 e2)
    next
      case False
      then have "\<And>bn i. (bn, i) \<in> set rest \<Longrightarrow> IPMap i = Some a \<Longrightarrow> getCpIntf bn i R = None"
        by blast
      moreover from am n have "a < nextAddr m1" by simp
      ultimately have "objects (snd (mergeFlat R rest m1)) a = objects m1 a"
        by (rule mergeFlat_frame [rotated])
      with o1 step show ?thesis by simp
    qed
  next
    case False
    with Cons.prems(3,4) x have r: "(bn, i) \<in> set rest" by auto
    show ?thesis
    proof (cases "getCpIntf bn0 i0 R")
      case None
      have "map_of (objects (snd (mergeFlat R rest m)) a) =
            map_of (IPMap mt) ++ map_of (objects m a)"
        by (rule Cons.IH [OF wf sh r Cons.prems(4,5)])
      with x show ?thesis
        by (simp add: mergeFlat_Cons_None [OF None] del: mergeFlat.simps)
    next
      case (Some mt0)
      obtain ref m1 where s: "mergeIPMap (IPMap i0) (IPMap mt0) (IPMap i0) m = (ref, m1)"
        and n: "nextAddr m \<le> nextAddr m1"
        and f: "\<And>x. x < nextAddr m \<Longrightarrow> Some x \<noteq> IPMap i0 \<Longrightarrow> objects m1 x = objects m x"
        by (rule mergeIPMap_same [of "IPMap i0" "IPMap mt0" m]) blast
      have wf1: "\<And>bn i a. (bn, i) \<in> set rest \<Longrightarrow> IPMap i = Some a \<Longrightarrow> a < nextAddr m1"
        using wf n by (meson less_le_trans)
      from False have "Some a \<noteq> IPMap i0" by auto
      from f [OF am this] have o1: "objects m1 a = objects m a" .
      have "map_of (objects (snd (mergeFlat R rest m1)) a) =
            map_of (IPMap mt) ++ map_of (objects m1 a)"
        by (rule Cons.IH [OF wf1 sh r Cons.prems(4,5)])
      with o1 x show ?thesis
        by (simp add: mergeFlat_Cons_Some [OF Some s] del: mergeFlat.simps)
    qed
  qed
qed

text \<open>The flat loop on a list in two parts.\<close>

lemma mergeFlat_append:
  "mergeFlat R (xs @ ys) m =
     (fst (mergeFlat R xs m) @ fst (mergeFlat R ys (snd (mergeFlat R xs m))),
      snd (mergeFlat R ys (snd (mergeFlat R xs m))))"
proof (induction xs arbitrary: m)
  case Nil
  then show ?case by simp
next
  case (Cons x rest)
  obtain bn i where x: "x = (bn, i)" by (cases x)
  show ?case
  proof (cases "getCpIntf bn i R")
    case None
    have "mergeFlat R ((bn, i) # rest @ ys) m =
        ((bn, i) # fst (mergeFlat R (rest @ ys) m), snd (mergeFlat R (rest @ ys) m))"
      by (rule mergeFlat_Cons_None [OF None])
    also have "\<dots> = ((bn, i) # fst (mergeFlat R rest m) @
                       fst (mergeFlat R ys (snd (mergeFlat R rest m))),
                    snd (mergeFlat R ys (snd (mergeFlat R rest m))))"
      by (simp only: Cons.IH fst_conv snd_conv)
    finally show ?thesis
      by (simp only: x append_Cons mergeFlat_Cons_None [OF None] fst_conv snd_conv)
  next
    case (Some mt)
    obtain ref m1 where s: "mergeIPMap (IPMap i) (IPMap mt) (IPMap i) m = (ref, m1)"
      by (cases "mergeIPMap (IPMap i) (IPMap mt) (IPMap i) m")
    have "mergeFlat R ((bn, i) # rest @ ys) m =
        ((bn, i\<lparr>IPMap := ref\<rparr>) # fst (mergeFlat R (rest @ ys) m1),
         snd (mergeFlat R (rest @ ys) m1))"
      by (rule mergeFlat_Cons_Some [OF Some s])
    also have "\<dots> = ((bn, i\<lparr>IPMap := ref\<rparr>) # fst (mergeFlat R rest m1) @
                       fst (mergeFlat R ys (snd (mergeFlat R rest m1))),
                    snd (mergeFlat R ys (snd (mergeFlat R rest m1))))"
      by (simp only: Cons.IH fst_conv snd_conv)
    finally show ?thesis
      by (simp only: x append_Cons mergeFlat_Cons_Some [OF Some s] fst_conv snd_conv)
  qed
qed

text \<open>The flat loop at one position: the loop over what comes before, the step for
  the interface, the loop over what comes after.\<close>

lemma mergeFlat_nth:
  assumes "n < length xs" and "xs ! n = (bn, i)"
  shows "fst (mergeFlat R xs m) ! n =
           hd (fst (mergeFlat R [(bn, i)] (snd (mergeFlat R (take n xs) m))))"
    and "snd (mergeFlat R xs m) =
           snd (mergeFlat R (drop (Suc n) xs)
                  (snd (mergeFlat R [(bn, i)] (snd (mergeFlat R (take n xs) m)))))"
proof -
  let ?m0 = "snd (mergeFlat R (take n xs) m)"
  let ?one = "mergeFlat R [(bn, i)] ?m0"
  have xs: "xs = take n xs @ ([(bn, i)] @ drop (Suc n) xs)"
    using id_take_nth_drop [OF assms(1)] assms(2) by simp
  have len: "length (fst (mergeFlat R (take n xs) m)) = n"
    using assms(1) mergeFlat_basic [of R "take n xs" m] by simp
  have len1: "length (fst ?one) = 1"
    using mergeFlat_basic [of R "[(bn, i)]" ?m0] by simp
  have d: "mergeFlat R xs m =
      (fst (mergeFlat R (take n xs) m) @
         (fst ?one @ fst (mergeFlat R (drop (Suc n) xs) (snd ?one))),
       snd (mergeFlat R (drop (Suc n) xs) (snd ?one)))"
    by (subst xs) (simp only: mergeFlat_append fst_conv snd_conv)
  from len1 obtain y where y: "fst ?one = [y]"
    by (cases "fst ?one") auto
  show "fst (mergeFlat R xs m) ! n = hd (fst ?one)"
    by (simp only: d fst_conv y) (simp add: nth_append len)
  show "snd (mergeFlat R xs m) = snd (mergeFlat R (drop (Suc n) xs) (snd ?one))"
    by (simp only: d snd_conv)
qed

lemma mergeFlat_one_None:
  "getCpIntf bn i R = None \<Longrightarrow> mergeFlat R [(bn, i)] m = ([(bn, i)], m)"
  by simp

lemma mergeFlat_one_Some:
  "getCpIntf bn i R = Some mt \<Longrightarrow> mergeIPMap (IPMap i) (IPMap mt) (IPMap i) m = (ref, m1) \<Longrightarrow>
   mergeFlat R [(bn, i)] m = ([(bn, i\<lparr>IPMap := ref\<rparr>)], m1)"
  by simp

text \<open>An interface without a match keeps its reference.\<close>

lemma mergeFlat_unmatched:
  assumes "n < length xs" and "xs ! n = (bn, i)" and "getCpIntf bn i R = None"
  shows "fst (mergeFlat R xs m) ! n = (bn, i)"
  by (simp only: mergeFlat_nth(1) [OF assms(1,2)] mergeFlat_one_None [OF assms(3)]
        fst_conv list.sel)

text \<open>A matched interface whose map is an object keeps its reference.\<close>

lemma mergeFlat_matched_object:
  assumes "n < length xs" and "xs ! n = (bn, i)" and "getCpIntf bn i R = Some mt"
      and "IPMap i = Some a"
  shows "fst (mergeFlat R xs m) ! n = (bn, i)"
proof -
  let ?m0 = "snd (mergeFlat R (take n xs) m)"
  obtain ref m1 where s: "mergeIPMap (IPMap i) (IPMap mt) (IPMap i) ?m0 = (ref, m1)"
    and o: "\<And>a. IPMap i = Some a \<Longrightarrow>
           ref = Some a \<and> map_of (objects m1 a) = map_of (IPMap mt) ++ map_of (objects ?m0 a)"
    by (rule mergeIPMap_same [of "IPMap i" "IPMap mt" ?m0]) blast
  from o [OF assms(4)] assms(4) have "i\<lparr>IPMap := ref\<rparr> = i" by simp
  then show ?thesis
    by (simp only: mergeFlat_nth(1) [OF assms(1,2)] mergeFlat_one_Some [OF assms(3) s]
          fst_conv list.sel)
qed

text \<open>A matched interface whose map is nil: it stays nil when the remote map is
  empty, and is a new object with the remote entries otherwise.\<close>

lemma mergeFlat_matched_nil_empty:
  assumes "n < length xs" and "xs ! n = (bn, i)" and "getCpIntf bn i R = Some mt"
      and "IPMap i = None" and "IPMap mt = []"
  shows "fst (mergeFlat R xs m) ! n = (bn, i)"
proof -
  let ?m0 = "snd (mergeFlat R (take n xs) m)"
  have s: "mergeIPMap (IPMap i) (IPMap mt) (IPMap i) ?m0 = (None, ?m0)"
    using assms(4,5) by simp
  have "i\<lparr>IPMap := None\<rparr> = i" using assms(4) by simp
  then show ?thesis
    by (simp only: mergeFlat_nth(1) [OF assms(1,2)] mergeFlat_one_Some [OF assms(3) s]
          fst_conv list.sel)
qed

lemma mergeFlat_matched_nil:
  assumes "\<And>bn i a. (bn, i) \<in> set xs \<Longrightarrow> IPMap i = Some a \<Longrightarrow> a < nextAddr m"
      and "n < length xs" and "xs ! n = (bn, i)" and "getCpIntf bn i R = Some mt"
      and "IPMap i = None" and "IPMap mt \<noteq> []"
  shows "\<exists>a'. fst (mergeFlat R xs m) ! n = (bn, i\<lparr>IPMap := Some a'\<rparr>) \<and>
              map_of (objects (snd (mergeFlat R xs m)) a') = map_of (rev (IPMap mt))"
proof -
  let ?m0 = "snd (mergeFlat R (take n xs) m)"
  have n0: "nextAddr m \<le> nextAddr ?m0"
    using mergeFlat_basic [of R "take n xs" m] by simp
  from mergeIPMap_nil [OF assms(6), of ?m0] obtain m1 where
    s0: "mergeIPMap None (IPMap mt) None ?m0 = (Some (nextAddr ?m0), m1)"
    and n1': "nextAddr m1 = Suc (nextAddr ?m0)"
    and o1: "map_of (objects m1 (nextAddr ?m0)) = map_of (rev (IPMap mt))"
    by blast
  have s: "mergeIPMap (IPMap i) (IPMap mt) (IPMap i) ?m0 = (Some (nextAddr ?m0), m1)"
    by (simp only: assms(5) s0)
  from n1' have n1: "nextAddr ?m0 < nextAddr m1" by (simp only: lessI)
  have one: "mergeFlat R [(bn, i)] ?m0 = ([(bn, i\<lparr>IPMap := Some (nextAddr ?m0)\<rparr>)], m1)"
    by (rule mergeFlat_one_Some [OF assms(4) s])
  have nth: "fst (mergeFlat R xs m) ! n = (bn, i\<lparr>IPMap := Some (nextAddr ?m0)\<rparr>)"
    by (simp only: mergeFlat_nth(1) [OF assms(2,3)] one fst_conv list.sel)
  have st: "snd (mergeFlat R xs m) = snd (mergeFlat R (drop (Suc n) xs) m1)"
    by (simp only: mergeFlat_nth(2) [OF assms(2,3)] one snd_conv)
  have "\<And>bn i. (bn, i) \<in> set (drop (Suc n) xs) \<Longrightarrow> IPMap i = Some (nextAddr ?m0) \<Longrightarrow>
          getCpIntf bn i R = None"
  proof -
    fix bn' i'
    assume d: "(bn', i') \<in> set (drop (Suc n) xs)" and a: "IPMap i' = Some (nextAddr ?m0)"
    from d have "(bn', i') \<in> set xs" by (rule in_set_dropD)
    from assms(1) [OF this a] n0 have False by linarith
    then show "getCpIntf bn' i' R = None" ..
  qed
  with n1 have fr: "objects (snd (mergeFlat R (drop (Suc n) xs) m1)) (nextAddr ?m0) =
      objects m1 (nextAddr ?m0)"
    by (rule mergeFlat_frame)
  have c: "map_of (objects (snd (mergeFlat R xs m)) (nextAddr ?m0)) = map_of (rev (IPMap mt))"
    by (simp only: st fr o1)
  show ?thesis
    by (rule exI [of _ "nextAddr ?m0"]) (rule conjI [OF nth c])
qed

text \<open>The nested loops of \<open>mergeAgentInfo\<close> and the flat loop do the same.\<close>

lemma mergeInterfaces_flat:
  "mergeFlat R (map (Pair bn) ifaces) m =
     (map (Pair bn) (fst (mergeInterfaces R bn ifaces m)), snd (mergeInterfaces R bn ifaces m))"
proof (induction ifaces arbitrary: m)
  case Nil
  then show ?case by simp
next
  case (Cons i rest)
  show ?case
  proof (cases "getCpIntf bn i R")
    case None
    have a: "mergeInterfaces R bn (i # rest) m =
        (i # fst (mergeInterfaces R bn rest m), snd (mergeInterfaces R bn rest m))"
      using None by (simp add: Let_def split: prod.splits)
    have "mergeFlat R ((bn, i) # map (Pair bn) rest) m =
        ((bn, i) # fst (mergeFlat R (map (Pair bn) rest) m),
         snd (mergeFlat R (map (Pair bn) rest) m))"
      by (rule mergeFlat_Cons_None [OF None])
    then show ?thesis
      by (simp only: list.map a Cons.IH fst_conv snd_conv)
  next
    case (Some mt)
    obtain ref m1 where s: "mergeIPMap (IPMap i) (IPMap mt) (IPMap i) m = (ref, m1)"
      by (cases "mergeIPMap (IPMap i) (IPMap mt) (IPMap i) m")
    have a: "mergeInterfaces R bn (i # rest) m =
        (i\<lparr>IPMap := ref\<rparr> # fst (mergeInterfaces R bn rest m1),
         snd (mergeInterfaces R bn rest m1))"
      using Some s by (simp add: Let_def split: prod.splits)
    have "mergeFlat R ((bn, i) # map (Pair bn) rest) m =
        ((bn, i\<lparr>IPMap := ref\<rparr>) # fst (mergeFlat R (map (Pair bn) rest) m1),
         snd (mergeFlat R (map (Pair bn) rest) m1))"
      by (rule mergeFlat_Cons_Some [OF Some s])
    then show ?thesis
      by (simp only: list.map a Cons.IH fst_conv snd_conv)
  qed
qed

lemma mergePorts_flat:
  "mergeFlat R (concat (map (\<lambda>port. map (Pair bn) (Interfaces port)) ports)) m =
     (concat (map (\<lambda>port. map (Pair bn) (Interfaces port)) (fst (mergePorts R bn ports m))),
      snd (mergePorts R bn ports m))"
proof (induction ports arbitrary: m)
  case Nil
  then show ?case by simp
next
  case (Cons p rest)
  let ?m1 = "snd (mergeInterfaces R bn (Interfaces p) m)"
  have a: "mergePorts R bn (p # rest) m =
      (p\<lparr>Interfaces := fst (mergeInterfaces R bn (Interfaces p) m)\<rparr> #
         fst (mergePorts R bn rest ?m1),
       snd (mergePorts R bn rest ?m1))"
    by (simp add: Let_def split: prod.splits)
  show ?case
    by (simp add: a mergeFlat_append mergeInterfaces_flat Cons.IH del: mergeFlat.simps mergePorts.simps)
qed

lemma mergeBridges_flat:
  "mergeFlat R
     (concat (map (\<lambda>bridge.
        concat (map (\<lambda>port. map (Pair (br_Name bridge)) (Interfaces port)) (Ports bridge)))
        bridges)) m =
     (concat (map (\<lambda>bridge.
        concat (map (\<lambda>port. map (Pair (br_Name bridge)) (Interfaces port)) (Ports bridge)))
        (fst (mergeBridges R bridges m))),
      snd (mergeBridges R bridges m))"
proof (induction bridges arbitrary: m)
  case Nil
  then show ?case by simp
next
  case (Cons b rest)
  let ?m1 = "snd (mergePorts R (br_Name b) (Ports b) m)"
  have a: "mergeBridges R (b # rest) m =
      (b\<lparr>Ports := fst (mergePorts R (br_Name b) (Ports b) m)\<rparr> #
         fst (mergeBridges R rest ?m1),
       snd (mergeBridges R rest ?m1))"
    by (simp add: Let_def split: prod.splits)
  show ?case
    by (simp add: a mergeFlat_append mergePorts_flat Cons.IH del: mergeFlat.simps mergeBridges.simps)
qed

lemma mergeAgentInfo_flat:
  "snapshotInterfaces (fst (mergeAgentInfo L R m)) = fst (mergeFlat R (snapshotInterfaces L) m)"
  "snd (mergeAgentInfo L R m) = snd (mergeFlat R (snapshotInterfaces L) m)"
proof -
  have p: "(\<lambda>iface. (bn, iface)) = Pair bn" for bn :: string
    by (rule refl)
  have a: "mergeAgentInfo L R m =
      (L\<lparr>ai_OVSInfo := (ai_OVSInfo L)
           \<lparr>Bridges := fst (mergeBridges R (Bridges (ai_OVSInfo L)) m)\<rparr>\<rparr>,
       snd (mergeBridges R (Bridges (ai_OVSInfo L)) m))"
    by (simp add: mergeAgentInfo_def Let_def split: prod.splits)
  show "snapshotInterfaces (fst (mergeAgentInfo L R m)) = fst (mergeFlat R (snapshotInterfaces L) m)"
    by (simp add: a snapshotInterfaces_def mergeBridges_flat del: mergeFlat.simps)
  show "snd (mergeAgentInfo L R m) = snd (mergeFlat R (snapshotInterfaces L) m)"
    by (simp add: a snapshotInterfaces_def mergeBridges_flat del: mergeFlat.simps)
qed

text \<open>What \<open>getCpIntf\<close> finds: an interface of the remote record, in a bridge of that
  name, with the same \<open>Ofport\<close>; and it finds one whenever there is one.\<close>

lemma findIntf_Some: "findIntf ofport ifaces = Some mt \<Longrightarrow> mt \<in> set ifaces \<and> Ofport mt = ofport"
  by (induction ifaces) (auto split: if_splits)

lemma findIntf_None: "findIntf ofport ifaces = None \<Longrightarrow> r \<in> set ifaces \<Longrightarrow> Ofport r \<noteq> ofport"
  by (induction ifaces) (auto split: if_splits)

lemma findIntfInPorts_Some:
  "findIntfInPorts ofport ports = Some mt \<Longrightarrow>
   \<exists>p \<in> set ports. mt \<in> set (Interfaces p) \<and> Ofport mt = ofport"
  by (induction ports) (auto split: option.splits dest: findIntf_Some)

lemma findIntfInPorts_None:
  "findIntfInPorts ofport ports = None \<Longrightarrow> p \<in> set ports \<Longrightarrow> r \<in> set (Interfaces p) \<Longrightarrow>
   Ofport r \<noteq> ofport"
  by (induction ports) (auto split: option.splits dest: findIntf_None)

lemma remoteInterfaces_iff:
  "(bn, r) \<in> set (remoteInterfaces R) \<longleftrightarrow>
   (\<exists>b \<in> set (Bridges (ai_OVSInfo R)). br_Name b = bn \<and>
      (\<exists>p \<in> set (Ports b). r \<in> set (Interfaces p)))"
  by (auto simp: remoteInterfaces_def)

lemma findIntfInBridges_Some:
  "findIntfInBridges bn ofport bridges = Some mt \<Longrightarrow>
   \<exists>b \<in> set bridges. br_Name b = bn \<and> (\<exists>p \<in> set (Ports b). mt \<in> set (Interfaces p)) \<and>
      Ofport mt = ofport"
proof (induction bridges)
  case Nil
  then show ?case by simp
next
  case (Cons b rest)
  show ?case
  proof (cases "br_Name b = bn")
    case False
    with Cons show ?thesis by auto
  next
    case True
    show ?thesis
    proof (cases "findIntfInPorts ofport (Ports b)")
      case None
      with Cons True show ?thesis by auto
    next
      case (Some x)
      with Cons.prems True have "x = mt" by simp
      with findIntfInPorts_Some [OF Some] True show ?thesis by auto
    qed
  qed
qed

lemma findIntfInBridges_None:
  "findIntfInBridges bn ofport bridges = None \<Longrightarrow> b \<in> set bridges \<Longrightarrow> br_Name b = bn \<Longrightarrow>
   p \<in> set (Ports b) \<Longrightarrow> r \<in> set (Interfaces p) \<Longrightarrow> Ofport r \<noteq> ofport"
proof (induction bridges)
  case Nil
  then show ?case by simp
next
  case (Cons b0 rest)
  show ?case
  proof (cases "br_Name b0 = bn")
    case False
    with Cons show ?thesis by auto
  next
    case True
    with Cons.prems(1) have n: "findIntfInPorts ofport (Ports b0) = None"
      and r: "findIntfInBridges bn ofport rest = None"
      by (auto split: option.splits)
    show ?thesis
    proof (cases "b = b0")
      case True
      with findIntfInPorts_None [OF n] Cons.prems(4,5) show ?thesis by auto
    next
      case False
      with Cons.prems(2) have "b \<in> set rest" by simp
      from Cons.IH [OF r this Cons.prems(3,4,5)] show ?thesis .
    qed
  qed
qed

lemma getCpIntf_Some:
  "getCpIntf bn i R = Some mt \<Longrightarrow> (bn, mt) \<in> set (remoteInterfaces R) \<and> Ofport mt = Ofport i"
  unfolding getCpIntf_def remoteInterfaces_iff
  by (drule findIntfInBridges_Some) blast

lemma getCpIntf_finds:
  assumes "(bn, r) \<in> set (remoteInterfaces R)" and "Ofport r = Ofport i"
  shows "\<exists>mt. getCpIntf bn i R = Some mt"
proof (cases "getCpIntf bn i R")
  case None
  from assms(1) obtain b p where "b \<in> set (Bridges (ai_OVSInfo R))" "br_Name b = bn"
    "p \<in> set (Ports b)" "r \<in> set (Interfaces p)"
    unfolding remoteInterfaces_iff by blast
  from findIntfInBridges_None [OF None [unfolded getCpIntf_def] this] assms(2)
  show ?thesis by simp
next
  case (Some mt)
  then show ?thesis by simp
qed

lemma sharedByKeyOnly_allocated:
  "sharedByKeyOnly m xs \<Longrightarrow> (bn, i) \<in> set xs \<Longrightarrow> IPMap i = Some a \<Longrightarrow> a < nextAddr m"
  by (auto simp: sharedByKeyOnly_def list_all_iff)

lemma sharedByKeyOnly_shared:
  "sharedByKeyOnly m xs \<Longrightarrow> (bn, i) \<in> set xs \<Longrightarrow> (bn', i') \<in> set xs \<Longrightarrow>
   IPMap i = Some a \<Longrightarrow> IPMap i' = Some a \<Longrightarrow> bn = bn' \<and> Ofport i = Ofport i'"
  unfolding sharedByKeyOnly_def list_all_iff by fastforce

lemma keys_map_of: "fst ` set xs = dom (map_of xs)"
  by (simp add: dom_map_of_conv_image_fst)

text \<open>
  Claim C1 (the merge loses no address that only the remote record has). For a
  snapshot that shares map objects the way a built one does, and an interface of it
  for which the remote record has an interface of the same bridge name and \<open>Ofport\<close>:
  \<open>getCpIntf\<close> finds such a remote interface; after \<open>mergeAgentInfo\<close> the interface
  stands at the same place of the snapshot, unchanged but for its \<open>IPMap\<close>; the keys
  of its \<open>IPMap\<close> are those it had before together with those of the remote
  interface; every key it had before keeps the value it had, and every other key has
  a value of the remote interface.
\<close>

theorem merge_keeps_remote_only_addresses:
  assumes "sharedByKeyOnly monitor (snapshotInterfaces L)"
      and "n < length (snapshotInterfaces L)"
      and "snapshotInterfaces L ! n = (bridgeName, intf)"
      and "(bridgeName, r) \<in> set (remoteInterfaces R)"
      and "Ofport r = Ofport intf"
  shows "\<exists>matchIntf intf'.
           getCpIntf bridgeName intf R = Some matchIntf \<and>
           (bridgeName, matchIntf) \<in> set (remoteInterfaces R) \<and>
           Ofport matchIntf = Ofport intf \<and>
           length (snapshotInterfaces (fst (mergeAgentInfo L R monitor))) =
             length (snapshotInterfaces L) \<and>
           snapshotInterfaces (fst (mergeAgentInfo L R monitor)) ! n = (bridgeName, intf') \<and>
           intf'\<lparr>IPMap := IPMap intf\<rparr> = intf \<and>
           fst ` set (deref (snd (mergeAgentInfo L R monitor)) (IPMap intf')) =
             fst ` set (deref monitor (IPMap intf)) \<union> fst ` set (IPMap matchIntf) \<and>
           (\<forall>key v. lookupIP monitor (IPMap intf) key = Some v \<longrightarrow>
              lookupIP (snd (mergeAgentInfo L R monitor)) (IPMap intf') key = Some v) \<and>
           (\<forall>key v. lookupIP (snd (mergeAgentInfo L R monitor)) (IPMap intf') key = Some v \<longrightarrow>
              lookupIP monitor (IPMap intf) key = Some v \<or> (key, v) \<in> set (IPMap matchIntf))"
proof -
  let ?xs = "snapshotInterfaces L"
  let ?m' = "snd (mergeFlat R ?xs monitor)"
  from getCpIntf_finds [OF assms(4,5)] obtain mt where g: "getCpIntf bridgeName intf R = Some mt"
    by blast
  note gs = getCpIntf_Some [OF g]
  have wf: "\<And>bn i a. (bn, i) \<in> set ?xs \<Longrightarrow> IPMap i = Some a \<Longrightarrow> a < nextAddr monitor"
    using assms(1) by (rule sharedByKeyOnly_allocated)
  have sh: "\<And>bn i bn' i' a. (bn, i) \<in> set ?xs \<Longrightarrow> (bn', i') \<in> set ?xs \<Longrightarrow>
             IPMap i = Some a \<Longrightarrow> IPMap i' = Some a \<Longrightarrow> bn = bn' \<and> Ofport i = Ofport i'"
    using assms(1) by (rule sharedByKeyOnly_shared)
  have len: "length (snapshotInterfaces (fst (mergeAgentInfo L R monitor))) = length ?xs"
    using mergeFlat_basic [of R ?xs monitor] by (simp add: mergeAgentInfo_flat)
  have mem: "(bridgeName, intf) \<in> set ?xs"
    using assms(2,3) by (metis nth_mem)
  have main: "\<exists>intf'. fst (mergeFlat R ?xs monitor) ! n = (bridgeName, intf') \<and>
           intf'\<lparr>IPMap := IPMap intf\<rparr> = intf \<and>
           fst ` set (deref ?m' (IPMap intf')) =
             fst ` set (deref monitor (IPMap intf)) \<union> fst ` set (IPMap mt) \<and>
           (\<forall>key v. lookupIP monitor (IPMap intf) key = Some v \<longrightarrow>
              lookupIP ?m' (IPMap intf') key = Some v) \<and>
           (\<forall>key v. lookupIP ?m' (IPMap intf') key = Some v \<longrightarrow>
              lookupIP monitor (IPMap intf) key = Some v \<or> (key, v) \<in> set (IPMap mt))"
  proof (cases "IPMap intf")
    case (Some a)
    have nth: "fst (mergeFlat R ?xs monitor) ! n = (bridgeName, intf)"
      using assms(2,3) g Some by (rule mergeFlat_matched_object)
    have c: "map_of (objects ?m' a) = map_of (IPMap mt) ++ map_of (objects monitor a)"
      using wf sh mem Some g by (rule mergeFlat_content)
    have k: "fst ` set (objects ?m' a) = fst ` set (objects monitor a) \<union> fst ` set (IPMap mt)"
      unfolding keys_map_of c by auto
    have v1: "\<And>key v. map_of (objects monitor a) key = Some v \<Longrightarrow>
                map_of (objects ?m' a) key = Some v"
      unfolding c by simp
    have v2: "\<And>key v. map_of (objects ?m' a) key = Some v \<Longrightarrow>
                map_of (objects monitor a) key = Some v \<or> (key, v) \<in> set (IPMap mt)"
      unfolding c by (auto dest: map_of_SomeD)
    show ?thesis
      using nth Some k v1 v2 by (intro exI [of _ intf]) (simp add: deref_def lookupIP_def)
  next
    case None
    show ?thesis
    proof (cases "IPMap mt = []")
      case True
      have nth: "fst (mergeFlat R ?xs monitor) ! n = (bridgeName, intf)"
        using assms(2,3) g None True by (rule mergeFlat_matched_nil_empty)
      show ?thesis
        using nth None True by (intro exI [of _ intf]) (simp add: deref_def lookupIP_def)
    next
      case False
      have "\<exists>a'. fst (mergeFlat R ?xs monitor) ! n = (bridgeName, intf\<lparr>IPMap := Some a'\<rparr>) \<and>
              map_of (objects ?m' a') = map_of (rev (IPMap mt))"
        by (rule mergeFlat_matched_nil [OF _ assms(2,3) g None False]) (rule wf, assumption+)
      then obtain a' where nth: "fst (mergeFlat R ?xs monitor) ! n = (bridgeName, intf\<lparr>IPMap := Some a'\<rparr>)"
        and c: "map_of (objects ?m' a') = map_of (rev (IPMap mt))"
        by blast
      have k: "fst ` set (objects ?m' a') = fst ` set (IPMap mt)"
        unfolding keys_map_of c by (simp add: dom_map_of_conv_image_fst)
      have v2: "\<And>key v. map_of (objects ?m' a') key = Some v \<Longrightarrow> (key, v) \<in> set (IPMap mt)"
        unfolding c by (auto dest: map_of_SomeD)
      show ?thesis
        using nth None k v2
        by (intro exI [of _ "intf\<lparr>IPMap := Some a'\<rparr>"]) (simp add: deref_def lookupIP_def)
    qed
  qed
  then obtain intf' where "fst (mergeFlat R ?xs monitor) ! n = (bridgeName, intf')"
    "intf'\<lparr>IPMap := IPMap intf\<rparr> = intf"
    "fst ` set (deref ?m' (IPMap intf')) =
             fst ` set (deref monitor (IPMap intf)) \<union> fst ` set (IPMap mt)"
    "\<forall>key v. lookupIP monitor (IPMap intf) key = Some v \<longrightarrow>
              lookupIP ?m' (IPMap intf') key = Some v"
    "\<forall>key v. lookupIP ?m' (IPMap intf') key = Some v \<longrightarrow>
              lookupIP monitor (IPMap intf) key = Some v \<or> (key, v) \<in> set (IPMap mt)"
    by blast
  with g gs len show ?thesis
    unfolding mergeAgentInfo_flat by blast
qed

theorem merge_keeps_remote_only_addresses_witness:
  "sharedByKeyOnly monitor0 (snapshotInterfaces snapshot0) \<and>
   0 < length (snapshotInterfaces snapshot0) \<and>
   snapshotInterfaces snapshot0 ! 0 = (''br0'', builtIface0) \<and>
   (''br0'', remoteIface0) \<in> set (remoteInterfaces remote0) \<and>
   Ofport remoteIface0 = Ofport builtIface0 \<and>
   getCpIntf ''br0'' builtIface0 remote0 = Some remoteIface0 \<and>
   snapshotInterfaces (fst (mergeAgentInfo snapshot0 remote0 monitor0)) ! 0 = (''br0'', builtIface0) \<and>
   deref monitor0 (IPMap builtIface0) = [(''10.0.0.7'', 100)] \<and>
   deref (snd (mergeAgentInfo snapshot0 remote0 monitor0)) (IPMap builtIface0) =
     [(''10.0.0.7'', 100), (''10.0.0.9'', 50)]"
proof -
  have h1: "sharedByKeyOnly monitor0 (snapshotInterfaces snapshot0)" by code_simp
  have h2: "0 < length (snapshotInterfaces snapshot0)" by code_simp
  have h3: "snapshotInterfaces snapshot0 ! 0 = (''br0'', builtIface0)" by code_simp
  have h4: "(''br0'', remoteIface0) \<in> set (remoteInterfaces remote0)"
    by (simp add: remoteInterfaces_def remote0_def)
  have h5: "Ofport remoteIface0 = Ofport builtIface0"
    by (simp add: remoteIface0_def builtIface0_def)
  have c1: "getCpIntf ''br0'' builtIface0 remote0 = Some remoteIface0" by code_simp
  have c2: "snapshotInterfaces (fst (mergeAgentInfo snapshot0 remote0 monitor0)) ! 0 =
      (''br0'', builtIface0)" by code_simp
  have c3: "deref monitor0 (IPMap builtIface0) = [(''10.0.0.7'', 100)]" by code_simp
  have c4: "deref (snd (mergeAgentInfo snapshot0 remote0 monitor0)) (IPMap builtIface0) =
     [(''10.0.0.7'', 100), (''10.0.0.9'', 50)]" by code_simp
  from merge_keeps_remote_only_addresses [OF h1 h2 h3 h4 h5]
  show ?thesis
    using h1 h2 h3 h4 h5 c1 c2 c3 c4 by simp
qed

section \<open>Port keys\<close>

text \<open>
  The key \<open>bridge-ofport\<close> of the IP cache names one bridge and one \<open>Ofport\<close>, for
  the \<open>Ofport\<close> values that are not negative: the decimal digits after the last
  hyphen give the number back.
\<close>

lemma digit_cases:
  assumes "d < (10::nat)"
  shows "d = 0 \<or> d = 1 \<or> d = 2 \<or> d = 3 \<or> d = 4 \<or> d = 5 \<or> d = 6 \<or> d = 7 \<or> d = 8 \<or> d = 9"
  using assms by presburger

lemma digit_char: "d < 10 \<Longrightarrow> ''0123456789'' ! d \<in> set ''0123456789''"
  by (rule nth_mem) simp

lemma digit_value: "d < 10 \<Longrightarrow> of_char (''0123456789'' ! d) = (48 + d :: nat)"
  by (drule digit_cases) (elim disjE; simp)

lemma decimal_small: "n < 10 \<Longrightarrow> decimal n = [''0123456789'' ! n]"
  by (subst decimal.simps) simp

lemma decimal_large:
  "\<not> n < 10 \<Longrightarrow> decimal n = decimal (n div 10) @ [''0123456789'' ! (n mod 10)]"
  by (subst decimal.simps) simp

lemma decimal_digits: "set (decimal n) \<subseteq> set ''0123456789''"
proof (induction n rule: decimal.induct)
  case (1 n)
  show ?case
  proof (cases "n < 10")
    case True
    from digit_char [OF True] show ?thesis
      by (simp only: decimal_small [OF True]) simp
  next
    case False
    have "n mod 10 < 10" by simp
    from digit_char [OF this] 1 [OF False] show ?thesis
      by (simp only: decimal_large [OF False]) simp
  qed
qed

lemma decimal_inverse:
  "foldl (\<lambda>acc c. 10 * acc + (of_char c - 48)) 0 (decimal n) = n"
proof (induction n rule: decimal.induct)
  case (1 n)
  show ?case
  proof (cases "n < 10")
    case True
    from digit_value [OF True] show ?thesis
      by (simp only: decimal_small [OF True]) simp
  next
    case False
    have "n mod 10 < 10" by simp
    from digit_value [OF this] 1 [OF False] show ?thesis
      by (simp only: decimal_large [OF False]) simp
  qed
qed

lemma decimal_inj:
  assumes "decimal n = decimal n'"
  shows "n = n'"
proof -
  have "foldl (\<lambda>acc c. 10 * acc + (of_char c - 48)) (0::nat) (decimal n) =
        foldl (\<lambda>acc c. 10 * acc + (of_char c - 48)) 0 (decimal n')"
    by (simp only: assms)
  then show ?thesis by (simp only: decimal_inverse)
qed

lemma split_at_last:
  assumes "c \<notin> set s" and "c \<notin> set s'"
  shows "xs @ c # s = ys @ c # s' \<Longrightarrow> xs = ys \<and> s = s'"
proof (induction xs arbitrary: ys)
  case Nil
  show ?case
  proof (cases ys)
    case Nil
    with Nil.prems show ?thesis by simp
  next
    case (Cons y ys')
    with Nil.prems have "s = ys' @ c # s'" by simp
    with assms(1) show ?thesis by simp
  qed
next
  case (Cons x xs)
  show ?case
  proof (cases ys)
    case Nil
    with Cons.prems have "s' = xs @ c # s" by simp
    with assms(2) show ?thesis by simp
  next
    case (Cons y ys')
    with Cons.prems have "x = y" and "xs @ c # s = ys' @ c # s'" by simp_all
    with Cons.IH [of ys'] Cons show ?thesis by simp
  qed
qed

lemma portKey_inj:
  assumes "0 \<le> sint ofport" and "0 \<le> sint ofport'"
      and "portKey bn ofport = portKey bn' ofport'"
  shows "bn = bn' \<and> ofport = ofport'"
proof -
  have m: "CHR ''-'' \<notin> set (decimal k)" for k
    using decimal_digits [of k] by auto
  from assms have "bn @ CHR ''-'' # decimal (nat (sint ofport)) =
      bn' @ CHR ''-'' # decimal (nat (sint ofport'))"
    by (simp add: portKey_def fmt_d_def)
  from split_at_last [OF m m this] have b: "bn = bn'"
    and "decimal (nat (sint ofport)) = decimal (nat (sint ofport'))"
    by simp_all
  then have "nat (sint ofport) = nat (sint ofport')" by (intro decimal_inj)
  with assms(1,2) have "sint ofport = sint ofport'" by simp
  then have "ofport = ofport'" by (rule signed_word_eqI)
  with b show ?thesis by simp
qed

lemma toInt32_nonneg:
  assumes "0 \<le> f" and "f < 2 ^ 31"
  shows "0 \<le> sint (toInt32 w f)"
proof -
  have t0: "0 \<le> trunc_toward_zero f"
    using assms(1) by (simp add: trunc_toward_zero_def)
  have t1: "trunc_toward_zero f < 2 ^ 31"
    using assms by (simp add: trunc_toward_zero_def floor_less_iff)
  have "toInt32 w f = word_of_int (trunc_toward_zero f)"
    using t0 t1 by (simp add: toInt32_def)
  moreover have "sint (word_of_int (trunc_toward_zero f) :: 32 word) = trunc_toward_zero f"
  proof -
    have "signed_take_bit (31::nat) (trunc_toward_zero f) = trunc_toward_zero f"
      by (rule signed_take_bit_int_eq_self) (use t0 t1 in simp_all)
    then show ?thesis by (simp add: sint_sbintrunc')
  qed
  ultimately show ?thesis using t0 by simp
qed

section \<open>The rows behind a built snapshot\<close>

text \<open>Every interface of a built snapshot is one that \<open>fetchInterfaceLocked\<close> returned
  for the name of its bridge.\<close>

lemma fetchInterfaces_from:
  "fetchInterfaces w m c bn uuids acc = Ok ifaces \<Longrightarrow> i \<in> set ifaces \<Longrightarrow>
   i \<in> set acc \<or> (\<exists>u. fetchInterfaceLocked w m c u bn = Ok (Some i))"
proof (induction uuids arbitrary: acc)
  case Nil
  then show ?case by simp
next
  case (Cons u rest)
  show ?case
  proof (cases "fetchInterfaceLocked w m c u bn")
    case (Ok r)
    show ?thesis
    proof (cases r)
      case None
      with Ok Cons.prems have "fetchInterfaces w m c bn rest acc = Ok ifaces" by simp
      from Cons.IH [OF this Cons.prems(2)] show ?thesis .
    next
      case (Some x)
      with Ok Cons.prems have "fetchInterfaces w m c bn rest (acc @ [x]) = Ok ifaces" by simp
      from Cons.IH [OF this Cons.prems(2)] Ok Some show ?thesis by auto
    qed
  next
    case (Err e)
    with Cons.prems show ?thesis by simp
  next
    case Panic
    with Cons.prems show ?thesis by simp
  qed
qed

lemma fetchPortLocked_from:
  assumes "fetchPortLocked w m c u bn = Ok port" and "i \<in> set (Interfaces port)"
  shows "\<exists>u'. fetchInterfaceLocked w m c u' bn = Ok (Some i)"
proof -
  from assms(1) obtain ovsPort ifaces where
    f: "fetchInterfaces w m c bn (listUUID (field ovsPort ''interfaces'')) [] = Ok ifaces"
    and p: "Interfaces port = ifaces"
    by (auto simp: fetchPortLocked_def and_then_eq_Ok Let_def split: option.splits)
  from fetchInterfaces_from [OF f] assms(2) p show ?thesis by auto
qed

lemma fetchPorts_from:
  "fetchPorts w m c bn uuids acc = Ok ports \<Longrightarrow> p \<in> set ports \<Longrightarrow>
   p \<in> set acc \<or> (\<exists>u. fetchPortLocked w m c u bn = Ok p)"
proof (induction uuids arbitrary: acc)
  case Nil
  then show ?case by simp
next
  case (Cons u rest)
  show ?case
  proof (cases "fetchPortLocked w m c u bn")
    case (Ok x)
    with Cons.prems have "fetchPorts w m c bn rest (acc @ [x]) = Ok ports" by simp
    from Cons.IH [OF this Cons.prems(2)] Ok show ?thesis by auto
  next
    case (Err e)
    with Cons.prems show ?thesis by simp
  next
    case Panic
    with Cons.prems show ?thesis by simp
  qed
qed

lemma fetchBridgeLocked_from:
  assumes "fetchBridgeLocked w m c u = Ok b" and "p \<in> set (Ports b)" and "i \<in> set (Interfaces p)"
  shows "\<exists>u'. fetchInterfaceLocked w m c u' (br_Name b) = Ok (Some i)"
proof -
  from assms(1) obtain ovsBri name ports where
    f: "fetchPorts w m c name (listUUID (field ovsBri ''ports'')) [] = Ok ports"
    and b: "b = \<lparr>br_Name = name, Ports = ports\<rparr>"
    by (auto simp: fetchBridgeLocked_def and_then_eq_Ok split: option.splits)
  from fetchPorts_from [OF f] assms(2) b obtain u' where "fetchPortLocked w m c u' name = Ok p"
    by auto
  from fetchPortLocked_from [OF this assms(3)] b show ?thesis by simp
qed

lemma fetchBridges_from:
  "fetchBridges w m c rows acc = Ok bridges \<Longrightarrow> b \<in> set bridges \<Longrightarrow>
   b \<in> set acc \<or> (\<exists>u. fetchBridgeLocked w m c u = Ok b)"
proof (induction rows arbitrary: acc)
  case Nil
  then show ?case by simp
next
  case (Cons r rest)
  obtain u row where r: "r = (u, row)" by (cases r)
  show ?case
  proof (cases "fetchBridgeLocked w m c u")
    case (Ok x)
    with Cons.prems r have "fetchBridges w m c rest (acc @ [x]) = Ok bridges" by simp
    from Cons.IH [OF this Cons.prems(2)] Ok show ?thesis by auto
  next
    case (Err e)
    with Cons.prems r show ?thesis by simp
  next
    case Panic
    with Cons.prems r show ?thesis by simp
  qed
qed

lemma snapshotInterfaces_iff:
  "(bn, i) \<in> set (snapshotInterfaces L) \<longleftrightarrow>
   (\<exists>b \<in> set (Bridges (ai_OVSInfo L)). br_Name b = bn \<and>
      (\<exists>p \<in> set (Ports b). i \<in> set (Interfaces p)))"
  by (auto simp: snapshotInterfaces_def)

lemma getAgentInfo_from:
  assumes "getAgentInfo w m = Ok L" and "(bn, i) \<in> set (snapshotInterfaces L)"
  shows "\<exists>u. fetchInterfaceLocked w m (ovsdbMonitor m) u bn = Ok (Some i)"
proof -
  from getAgentInfo_eq_Ok [OF assms(1)] have
    f: "fetchBridges w m (ovsdbMonitor m) (ovsdbMonitor m ''Bridge'') [] =
          Ok (Bridges (ai_OVSInfo L))"
    by auto
  from assms(2) obtain b p where b: "b \<in> set (Bridges (ai_OVSInfo L))" "br_Name b = bn"
    and p: "p \<in> set (Ports b)" "i \<in> set (Interfaces p)"
    unfolding snapshotInterfaces_iff by blast
  from fetchBridges_from [OF f b(1)] obtain u where "fetchBridgeLocked w m (ovsdbMonitor m) u = Ok b"
    by auto
  from fetchBridgeLocked_from [OF this p] b(2) show ?thesis by simp
qed

text \<open>
  A built interface with an \<open>IPMap\<close> took it from the IP cache under the key of its
  bridge name and \<open>Ofport\<close>, and that \<open>Ofport\<close> is not negative.
\<close>

lemma built_interface_key:
  assumes f: "fetchInterfaceLocked w monitor ovsdbCache uuid bridgeName = Ok (Some iface)"
      and a: "IPMap iface = Some a"
      and r: "ofportsRepresentable ovsdbCache"
  shows "map_of (ipCache monitor) (portKey bridgeName (Ofport iface)) = Some a \<and>
         0 \<le> sint (Ofport iface)"
proof -
  from fetchInterfaceLocked_Some [OF f] obtain ovsIface where
    row: "map_of (ovsdbCache ''Interface'') uuid = Some ovsIface"
    and c: "(case field ovsIface ''ofport'' of
              VFloat64 ofport \<Rightarrow>
                if 0 \<le> ofport
                then Ofport iface = toInt32 w ofport \<and>
                     IPMap iface = map_of (ipCache monitor) (portKey bridgeName (toInt32 w ofport))
                else Ofport iface = 0 \<and> IPMap iface = None
            | _ \<Rightarrow> Ofport iface = 0 \<and> IPMap iface = None)"
    by blast
  from c a obtain ofport where o: "field ovsIface ''ofport'' = VFloat64 ofport"
    by (cases "field ovsIface ''ofport''") simp_all
  from c a o have p: "0 \<le> ofport" by (cases "0 \<le> ofport") simp_all
  from c o p have e: "Ofport iface = toInt32 w ofport"
    and i: "IPMap iface = map_of (ipCache monitor) (portKey bridgeName (toInt32 w ofport))"
    by simp_all
  from row have "(uuid, ovsIface) \<in> set (ovsdbCache ''Interface'')" by (rule map_of_SomeD)
  with r o have "ofport < 2 ^ 31"
    by (auto simp: ofportsRepresentable_def list_all_iff)
  from toInt32_nonneg [OF p this] have "0 \<le> sint (toInt32 w ofport)" .
  with e i a show ?thesis by simp
qed

lemma map_of_distinct_values:
  "distinct (map snd xs) \<Longrightarrow> map_of xs k = Some a \<Longrightarrow> map_of xs k' = Some a \<Longrightarrow> k = k'"
proof (induction xs)
  case Nil
  then show ?case by simp
next
  case (Cons x xs)
  obtain k0 a0 where x: "x = (k0, a0)" by (cases x)
  from Cons.prems(1) x have d: "distinct (map snd xs)" and n: "a0 \<notin> snd ` set xs" by simp_all
  have m: "map_of xs j = Some a0 \<Longrightarrow> False" for j
  proof -
    assume "map_of xs j = Some a0"
    then have "(j, a0) \<in> set xs" by (rule map_of_SomeD)
    then have "a0 \<in> snd ` set xs" by force
    with n show False by simp
  qed
  show ?case
  proof (cases "k = k0")
    case True
    with Cons.prems(2) x have a: "a = a0" by simp
    show ?thesis
    proof (cases "k' = k0")
      case True
      with \<open>k = k0\<close> show ?thesis by simp
    next
      case False
      with Cons.prems(3) x a have "map_of xs k' = Some a0" by simp
      from m [OF this] show ?thesis ..
    qed
  next
    case False
    with Cons.prems(2) x have k: "map_of xs k = Some a" by simp
    show ?thesis
    proof (cases "k' = k0")
      case True
      with Cons.prems(3) x have "a = a0" by simp
      with k have "map_of xs k = Some a0" by simp
      from m [OF this] show ?thesis ..
    next
      case False
      with Cons.prems(3) x have "map_of xs k' = Some a" by simp
      from Cons.IH [OF d k this] show ?thesis .
    qed
  qed
qed

text \<open>
  The snapshots that \<open>getAgentInfo\<close> builds share map objects by key only, when the
  cache holds allocated objects, one object per key, and every \<open>ofport\<close> of the
  OVSDB cache is below \<open>2 ^ 31\<close>.
\<close>

lemma getAgentInfo_sharedByKeyOnly:
  assumes g: "getAgentInfo w monitor = Ok localAgentInfo"
      and al: "cacheAllocated monitor"
      and d: "distinct (map snd (ipCache monitor))"
      and r: "ofportsRepresentable (ovsdbMonitor monitor)"
  shows "sharedByKeyOnly monitor (snapshotInterfaces localAgentInfo)"
proof -
  have key: "map_of (ipCache monitor) (portKey bn (Ofport i)) = Some a \<and> 0 \<le> sint (Ofport i)"
    if "(bn, i) \<in> set (snapshotInterfaces localAgentInfo)" and "IPMap i = Some a" for bn i a
  proof -
    from getAgentInfo_from [OF g that(1)] obtain u where
      "fetchInterfaceLocked w monitor (ovsdbMonitor monitor) u bn = Ok (Some i)" ..
    from built_interface_key [OF this that(2) r] show ?thesis .
  qed
  have p1: "a < nextAddr monitor"
    if "(bn, i) \<in> set (snapshotInterfaces localAgentInfo)" and "IPMap i = Some a" for bn i a
  proof -
    from key [OF that] have "map_of (ipCache monitor) (portKey bn (Ofport i)) = Some a" ..
    then have "(portKey bn (Ofport i), a) \<in> set (ipCache monitor)" by (rule map_of_SomeD)
    with al show ?thesis by (auto simp: cacheAllocated_def list_all_iff)
  qed
  have p2: "bn = bn' \<and> Ofport i = Ofport i'"
    if "(bn, i) \<in> set (snapshotInterfaces localAgentInfo)"
      and "(bn', i') \<in> set (snapshotInterfaces localAgentInfo)"
      and "IPMap i = Some a" and "IPMap i' = Some a" for bn i bn' i' a
  proof -
    from key [OF that(1,3)] have k1: "map_of (ipCache monitor) (portKey bn (Ofport i)) = Some a"
      and s1: "0 \<le> sint (Ofport i)" by simp_all
    from key [OF that(2,4)] have k2: "map_of (ipCache monitor) (portKey bn' (Ofport i')) = Some a"
      and s2: "0 \<le> sint (Ofport i')" by simp_all
    from map_of_distinct_values [OF d k1 k2]
    have "portKey bn (Ofport i) = portKey bn' (Ofport i')" .
    from portKey_inj [OF s1 s2 this] show ?thesis .
  qed
  have a1: "list_all (\<lambda>(bridgeName, intf).
         case IPMap intf of None \<Rightarrow> True | Some a \<Rightarrow> a < nextAddr monitor)
       (snapshotInterfaces localAgentInfo)"
    unfolding list_all_iff
  proof (intro ballI)
    fix x assume x: "x \<in> set (snapshotInterfaces localAgentInfo)"
    obtain bn i where e: "x = (bn, i)" by (cases x)
    show "case x of (bridgeName, intf) \<Rightarrow>
            (case IPMap intf of None \<Rightarrow> True | Some a \<Rightarrow> a < nextAddr monitor)"
    proof (cases "IPMap i")
      case None
      with e show ?thesis by simp
    next
      case (Some a)
      from p1 [OF x [unfolded e] Some] e Some show ?thesis by simp
    qed
  qed
  have a2: "list_all (\<lambda>(bridgeName, intf).
         list_all (\<lambda>(bridgeName', intf').
            IPMap intf \<noteq> None \<and> IPMap intf = IPMap intf' \<longrightarrow>
            bridgeName = bridgeName' \<and> Ofport intf = Ofport intf')
          (snapshotInterfaces localAgentInfo))
       (snapshotInterfaces localAgentInfo)"
    unfolding list_all_iff
  proof (intro ballI)
    fix x assume x: "x \<in> set (snapshotInterfaces localAgentInfo)"
    obtain bn i where e: "x = (bn, i)" by (cases x)
    have "\<forall>y\<in>set (snapshotInterfaces localAgentInfo). case y of (bridgeName', intf') \<Rightarrow>
            IPMap i \<noteq> None \<and> IPMap i = IPMap intf' \<longrightarrow>
            bn = bridgeName' \<and> Ofport i = Ofport intf'"
    proof (intro ballI)
      fix y assume y: "y \<in> set (snapshotInterfaces localAgentInfo)"
      obtain bn' i' where e': "y = (bn', i')" by (cases y)
      have "IPMap i \<noteq> None \<and> IPMap i = IPMap i' \<longrightarrow> bn = bn' \<and> Ofport i = Ofport i'"
      proof
        assume h: "IPMap i \<noteq> None \<and> IPMap i = IPMap i'"
        then have "IPMap i \<noteq> None" by (rule conjunct1)
        then obtain a where a: "IPMap i = Some a" by (cases "IPMap i") simp_all
        with h have a': "IPMap i' = Some a" by simp
        from p2 [OF x [unfolded e] y [unfolded e'] a a'] show "bn = bn' \<and> Ofport i = Ofport i'" .
      qed
      with e' show "case y of (bridgeName', intf') \<Rightarrow>
            IPMap i \<noteq> None \<and> IPMap i = IPMap intf' \<longrightarrow>
            bn = bridgeName' \<and> Ofport i = Ofport intf'"
        by simp
    qed
    with e show "case x of (bridgeName, intf) \<Rightarrow>
        \<forall>y\<in>set (snapshotInterfaces localAgentInfo). case y of (bridgeName', intf') \<Rightarrow>
            IPMap intf \<noteq> None \<and> IPMap intf = IPMap intf' \<longrightarrow>
            bridgeName = bridgeName' \<and> Ofport intf = Ofport intf'"
      by simp
  qed
  from a1 a2 show ?thesis unfolding sharedByKeyOnly_def by simp
qed

text \<open>
  The loops of a build, as maps over the references: within a build that succeeds,
  every reference is fetched with success, and the results are appended in order.
\<close>

lemma fetchInterfaces_map:
  "fetchInterfaces w m c bn uuids acc = Ok ifaces \<Longrightarrow>
   \<exists>rs. map (\<lambda>u. fetchInterfaceLocked w m c u bn) uuids = map Ok rs \<and>
        ifaces = acc @ map the (filter (\<lambda>r. r \<noteq> None) rs)"
proof (induction uuids arbitrary: acc)
  case Nil
  then show ?case by simp
next
  case (Cons u rest)
  show ?case
  proof (cases "fetchInterfaceLocked w m c u bn")
    case (Ok r)
    show ?thesis
    proof (cases r)
      case None
      with Ok Cons.prems have "fetchInterfaces w m c bn rest acc = Ok ifaces" by simp
      from Cons.IH [OF this] obtain rs where
        rs: "map (\<lambda>u. fetchInterfaceLocked w m c u bn) rest = map Ok rs"
        and i: "ifaces = acc @ map the (filter (\<lambda>r. r \<noteq> None) rs)" by blast
      from rs Ok None have "map (\<lambda>u. fetchInterfaceLocked w m c u bn) (u # rest) = map Ok (None # rs)"
        by simp
      moreover from i have "ifaces = acc @ map the (filter (\<lambda>r. r \<noteq> None) (None # rs))"
        by simp
      ultimately show ?thesis by blast
    next
      case (Some x)
      with Ok Cons.prems have "fetchInterfaces w m c bn rest (acc @ [x]) = Ok ifaces" by simp
      from Cons.IH [OF this] obtain rs where
        rs: "map (\<lambda>u. fetchInterfaceLocked w m c u bn) rest = map Ok rs"
        and i: "ifaces = (acc @ [x]) @ map the (filter (\<lambda>r. r \<noteq> None) rs)" by blast
      from rs Ok Some have "map (\<lambda>u. fetchInterfaceLocked w m c u bn) (u # rest) = map Ok (Some x # rs)"
        by simp
      moreover from i have "ifaces = acc @ map the (filter (\<lambda>r. r \<noteq> None) (Some x # rs))"
        by simp
      ultimately show ?thesis by blast
    qed
  next
    case (Err e)
    with Cons.prems show ?thesis by simp
  next
    case Panic
    with Cons.prems show ?thesis by simp
  qed
qed

lemma fetchPorts_map:
  "fetchPorts w m c bn uuids acc = Ok ports \<Longrightarrow>
   \<exists>ps. map (\<lambda>u. fetchPortLocked w m c u bn) uuids = map Ok ps \<and> ports = acc @ ps"
proof (induction uuids arbitrary: acc)
  case Nil
  then show ?case by simp
next
  case (Cons u rest)
  show ?case
  proof (cases "fetchPortLocked w m c u bn")
    case (Ok x)
    with Cons.prems have "fetchPorts w m c bn rest (acc @ [x]) = Ok ports" by simp
    from Cons.IH [OF this] obtain ps where
      ps: "map (\<lambda>u. fetchPortLocked w m c u bn) rest = map Ok ps"
      and p: "ports = (acc @ [x]) @ ps" by blast
    from ps Ok have "map (\<lambda>u. fetchPortLocked w m c u bn) (u # rest) = map Ok (x # ps)" by simp
    moreover from p have "ports = acc @ (x # ps)" by simp
    ultimately show ?thesis by blast
  next
    case (Err e)
    with Cons.prems show ?thesis by simp
  next
    case Panic
    with Cons.prems show ?thesis by simp
  qed
qed

lemma fetchBridges_map:
  "fetchBridges w m c rows acc = Ok bridges \<Longrightarrow>
   \<exists>bs. map (\<lambda>u. fetchBridgeLocked w m c u) (map fst rows) = map Ok bs \<and> bridges = acc @ bs"
proof (induction rows arbitrary: acc)
  case Nil
  then show ?case by simp
next
  case (Cons r rest)
  obtain u row where r: "r = (u, row)" by (cases r)
  show ?case
  proof (cases "fetchBridgeLocked w m c u")
    case (Ok x)
    with Cons.prems r have "fetchBridges w m c rest (acc @ [x]) = Ok bridges" by simp
    from Cons.IH [OF this] obtain bs where
      bs: "map (\<lambda>u. fetchBridgeLocked w m c u) (map fst rest) = map Ok bs"
      and b: "bridges = (acc @ [x]) @ bs" by blast
    from bs Ok r have "map (\<lambda>u. fetchBridgeLocked w m c u) (map fst (r # rest)) = map Ok (x # bs)"
      by simp
    moreover from b have "bridges = acc @ (x # bs)" by simp
    ultimately show ?thesis by blast
  next
    case (Err e)
    with Cons.prems r show ?thesis by simp
  next
    case Panic
    with Cons.prems r show ?thesis by simp
  qed
qed

lemma map_Ok_forward:
  "map f xs = map Ok ys \<Longrightarrow> x \<in> set xs \<Longrightarrow> \<exists>y \<in> set ys. f x = Ok y"
proof (induction xs arbitrary: ys)
  case Nil
  then show ?case by simp
next
  case (Cons a xs)
  then obtain b ys' where ys: "ys = b # ys'" by (cases ys) simp_all
  with Cons.prems(1) have h: "f a = Ok b" and t: "map f xs = map Ok ys'" by simp_all
  show ?case
  proof (cases "x = a")
    case True
    with h ys show ?thesis by simp
  next
    case False
    with Cons.prems(2) have "x \<in> set xs" by simp
    from Cons.IH [OF t this] ys show ?thesis by auto
  qed
qed

lemma map_Ok_backward:
  "map f xs = map Ok ys \<Longrightarrow> y \<in> set ys \<Longrightarrow> \<exists>x \<in> set xs. f x = Ok y"
proof (induction xs arbitrary: ys)
  case Nil
  then show ?case by simp
next
  case (Cons a xs)
  then obtain b ys' where ys: "ys = b # ys'" by (cases ys) simp_all
  with Cons.prems(1) have h: "f a = Ok b" and t: "map f xs = map Ok ys'" by simp_all
  show ?case
  proof (cases "y = b")
    case True
    with h show ?thesis by simp
  next
    case False
    with Cons.prems(2) ys have "y \<in> set ys'" by simp
    from Cons.IH [OF t this] show ?thesis by auto
  qed
qed

lemma fetchPortLocked_Ok:
  assumes "fetchPortLocked w m c u bn = Ok port"
  shows "\<exists>ovsPort. map_of (c ''Port'') u = Some ovsPort \<and>
           field ovsPort ''name'' = VString (port_Name port) \<and>
           fetchInterfaces w m c bn (listUUID (field ovsPort ''interfaces'')) [] =
             Ok (Interfaces port)"
  using assms
  by (auto simp: fetchPortLocked_def and_then_eq_Ok assertString_eq_Ok Let_def
        split: option.splits)

lemma fetchBridgeLocked_Ok:
  assumes "fetchBridgeLocked w m c u = Ok bridge"
  shows "\<exists>ovsBri. map_of (c ''Bridge'') u = Some ovsBri \<and>
           field ovsBri ''name'' = VString (br_Name bridge) \<and>
           fetchPorts w m c (br_Name bridge) (listUUID (field ovsBri ''ports'')) [] =
             Ok (Ports bridge)"
  using assms
  by (auto simp: fetchBridgeLocked_def and_then_eq_Ok assertString_eq_Ok split: option.splits)

text \<open>The interfaces of a port that is built, from the references of its row.\<close>

lemma fetchPortLocked_interfaces:
  assumes "fetchPortLocked w m c u bn = Ok port"
  shows "\<exists>ovsPort rs. map_of (c ''Port'') u = Some ovsPort \<and>
           field ovsPort ''name'' = VString (port_Name port) \<and>
           map (\<lambda>uuid. fetchInterfaceLocked w m c uuid bn) (listUUID (field ovsPort ''interfaces'')) =
             map Ok rs \<and>
           Interfaces port = map the (filter (\<lambda>r. r \<noteq> None) rs)"
proof -
  from fetchPortLocked_Ok [OF assms] obtain ovsPort where
    r: "map_of (c ''Port'') u = Some ovsPort"
    and n: "field ovsPort ''name'' = VString (port_Name port)"
    and f: "fetchInterfaces w m c bn (listUUID (field ovsPort ''interfaces'')) [] = Ok (Interfaces port)"
    by blast
  from fetchInterfaces_map [OF f] obtain rs where
    "map (\<lambda>uuid. fetchInterfaceLocked w m c uuid bn) (listUUID (field ovsPort ''interfaces'')) = map Ok rs"
    and "Interfaces port = map the (filter (\<lambda>r. r \<noteq> None) rs)"
    by auto
  with r n show ?thesis by blast
qed

text \<open>Every port of a built snapshot was fetched for a reference of its bridge's row.\<close>

lemma getAgentInfo_port_from:
  assumes g: "getAgentInfo w m = Ok agentInfo"
      and b: "bridge \<in> set (Bridges (ai_OVSInfo agentInfo))"
      and p: "port \<in> set (Ports bridge)"
  shows "\<exists>bridgeUUID ovsBri portUUID.
           map_of (ovsdbMonitor m ''Bridge'') bridgeUUID = Some ovsBri \<and>
           field ovsBri ''name'' = VString (br_Name bridge) \<and>
           portUUID \<in> set (listUUID (field ovsBri ''ports'')) \<and>
           fetchPortLocked w m (ovsdbMonitor m) portUUID (br_Name bridge) = Ok port"
proof -
  let ?c = "ovsdbMonitor m"
  from getAgentInfo_eq_Ok [OF g] have
    f: "fetchBridges w m ?c (?c ''Bridge'') [] = Ok (Bridges (ai_OVSInfo agentInfo))"
    by auto
  from fetchBridges_from [OF f b] obtain u where u: "fetchBridgeLocked w m ?c u = Ok bridge"
    by auto
  from fetchBridgeLocked_Ok [OF u] obtain ovsBri where
    r: "map_of (?c ''Bridge'') u = Some ovsBri"
    and n: "field ovsBri ''name'' = VString (br_Name bridge)"
    and fp: "fetchPorts w m ?c (br_Name bridge) (listUUID (field ovsBri ''ports'')) [] = Ok (Ports bridge)"
    by blast
  from fetchPorts_map [OF fp] have
    "map (\<lambda>u. fetchPortLocked w m ?c u (br_Name bridge)) (listUUID (field ovsBri ''ports'')) =
       map Ok (Ports bridge)"
    by auto
  from map_Ok_backward [OF this p] obtain pu where
    "pu \<in> set (listUUID (field ovsBri ''ports''))"
    and "fetchPortLocked w m ?c pu (br_Name bridge) = Ok port"
    by blast
  with r n show ?thesis by blast
qed

text \<open>Every port that a bridge row of the table refers to is in the built snapshot.\<close>

lemma getAgentInfo_port_to:
  assumes g: "getAgentInfo w m = Ok agentInfo"
      and r: "map_of (ovsdbMonitor m ''Bridge'') bridgeUUID = Some ovsBri"
      and p: "portUUID \<in> set (listUUID (field ovsBri ''ports''))"
  shows "\<exists>bridge \<in> set (Bridges (ai_OVSInfo agentInfo)). \<exists>port \<in> set (Ports bridge).
           field ovsBri ''name'' = VString (br_Name bridge) \<and>
           fetchBridgeLocked w m (ovsdbMonitor m) bridgeUUID = Ok bridge \<and>
           fetchPortLocked w m (ovsdbMonitor m) portUUID (br_Name bridge) = Ok port"
proof -
  let ?c = "ovsdbMonitor m"
  from getAgentInfo_eq_Ok [OF g] have
    f: "fetchBridges w m ?c (?c ''Bridge'') [] = Ok (Bridges (ai_OVSInfo agentInfo))"
    by auto
  from fetchBridges_map [OF f] have
    mb: "map (\<lambda>u. fetchBridgeLocked w m ?c u) (map fst (?c ''Bridge'')) =
       map Ok (Bridges (ai_OVSInfo agentInfo))"
    by auto
  from r have "(bridgeUUID, ovsBri) \<in> set (?c ''Bridge'')" by (rule map_of_SomeD)
  then have "bridgeUUID \<in> set (map fst (?c ''Bridge''))" by force
  from map_Ok_forward [OF mb this] obtain bridge where
    b: "bridge \<in> set (Bridges (ai_OVSInfo agentInfo))"
    and fb: "fetchBridgeLocked w m ?c bridgeUUID = Ok bridge"
    by blast
  from fetchBridgeLocked_Ok [OF fb] r have
    n: "field ovsBri ''name'' = VString (br_Name bridge)"
    and fp: "fetchPorts w m ?c (br_Name bridge) (listUUID (field ovsBri ''ports'')) [] = Ok (Ports bridge)"
    by auto
  from fetchPorts_map [OF fp] have
    "map (\<lambda>u. fetchPortLocked w m ?c u (br_Name bridge)) (listUUID (field ovsBri ''ports'')) =
       map Ok (Ports bridge)"
    by auto
  from map_Ok_forward [OF this p] obtain port where
    "port \<in> set (Ports bridge)"
    and "fetchPortLocked w m ?c portUUID (br_Name bridge) = Ok port"
    by blast
  with b n fb show ?thesis by blast
qed

text \<open>
  Claim C7 (interface drop on error), for the snapshot that \<open>getAgentInfo\<close> builds.
  The interfaces of a port that \<open>fetchPortLocked\<close> builds are, in order, the
  interfaces that \<open>fetchInterfaceLocked\<close> returns for the references of the port's
  row, those that come back nil left out; and for a reference that has a row,
  nil comes back exactly when the \<open>error\<close> column is a non-empty string. So in a
  built snapshot every port was fetched for a reference of a bridge row, and every
  interface in it was built from a row whose \<open>error\<close> column is not a non-empty
  string. Conversely, for an interface row that a port row refers to, itself
  referred to by a bridge row of the table: the bridge and the port are in the
  snapshot under their names; when the \<open>error\<close> column is a non-empty string the
  fetch of the interface gives nil, so the port's list has nothing for it; otherwise
  the port's list holds the interface built from the row, under its name.
\<close>

theorem interface_drop_on_error:
  assumes "getAgentInfo w monitor = Ok agentInfo"
  shows "(\<forall>portUUID bridgeName port.
            fetchPortLocked w monitor (ovsdbMonitor monitor) portUUID bridgeName = Ok port \<longrightarrow>
            (\<exists>ovsPort rs.
               map_of (ovsdbMonitor monitor ''Port'') portUUID = Some ovsPort \<and>
               map (\<lambda>uuid. fetchInterfaceLocked w monitor (ovsdbMonitor monitor) uuid bridgeName)
                   (listUUID (field ovsPort ''interfaces'')) = map Ok rs \<and>
               Interfaces port = map the (filter (\<lambda>r. r \<noteq> None) rs))) \<and>
         (\<forall>uuid bridgeName ovsIface.
            map_of (ovsdbMonitor monitor ''Interface'') uuid = Some ovsIface \<longrightarrow>
            (fetchInterfaceLocked w monitor (ovsdbMonitor monitor) uuid bridgeName = Ok None) =
            (\<exists>s. field ovsIface ''error'' = VString s \<and> s \<noteq> [])) \<and>
         (\<forall>bridge \<in> set (Bridges (ai_OVSInfo agentInfo)). \<forall>port \<in> set (Ports bridge).
            (\<exists>bridgeUUID ovsBri portUUID.
               map_of (ovsdbMonitor monitor ''Bridge'') bridgeUUID = Some ovsBri \<and>
               portUUID \<in> set (listUUID (field ovsBri ''ports'')) \<and>
               fetchPortLocked w monitor (ovsdbMonitor monitor) portUUID (br_Name bridge) = Ok port) \<and>
            (\<forall>iface \<in> set (Interfaces port).
               \<exists>uuid ovsIface.
                 map_of (ovsdbMonitor monitor ''Interface'') uuid = Some ovsIface \<and>
                 \<not> (\<exists>s. field ovsIface ''error'' = VString s \<and> s \<noteq> []) \<and>
                 field ovsIface ''name'' = VString (if_Name iface) \<and>
                 fetchInterfaceLocked w monitor (ovsdbMonitor monitor) uuid (br_Name bridge) =
                   Ok (Some iface))) \<and>
         (\<forall>bridgeUUID ovsBri portUUID ovsPort uuid ovsIface.
            map_of (ovsdbMonitor monitor ''Bridge'') bridgeUUID = Some ovsBri \<and>
            portUUID \<in> set (listUUID (field ovsBri ''ports'')) \<and>
            map_of (ovsdbMonitor monitor ''Port'') portUUID = Some ovsPort \<and>
            uuid \<in> set (listUUID (field ovsPort ''interfaces'')) \<and>
            map_of (ovsdbMonitor monitor ''Interface'') uuid = Some ovsIface \<longrightarrow>
            (\<exists>bridge \<in> set (Bridges (ai_OVSInfo agentInfo)). \<exists>port \<in> set (Ports bridge).
               field ovsBri ''name'' = VString (br_Name bridge) \<and>
               field ovsPort ''name'' = VString (port_Name port) \<and>
               fetchPortLocked w monitor (ovsdbMonitor monitor) portUUID (br_Name bridge) = Ok port \<and>
               (if \<exists>s. field ovsIface ''error'' = VString s \<and> s \<noteq> []
                then fetchInterfaceLocked w monitor (ovsdbMonitor monitor) uuid (br_Name bridge) =
                       Ok None
                else \<exists>iface \<in> set (Interfaces port).
                       field ovsIface ''name'' = VString (if_Name iface) \<and>
                       fetchInterfaceLocked w monitor (ovsdbMonitor monitor) uuid (br_Name bridge) =
                         Ok (Some iface))))"
proof -
  let ?c = "ovsdbMonitor monitor"
  have P: "\<exists>ovsPort rs.
               map_of (?c ''Port'') portUUID = Some ovsPort \<and>
               map (\<lambda>uuid. fetchInterfaceLocked w monitor ?c uuid bridgeName)
                   (listUUID (field ovsPort ''interfaces'')) = map Ok rs \<and>
               Interfaces port = map the (filter (\<lambda>r. r \<noteq> None) rs)"
    if "fetchPortLocked w monitor ?c portUUID bridgeName = Ok port" for portUUID bridgeName port
    using fetchPortLocked_interfaces [OF that] by blast
  have N: "(fetchInterfaceLocked w monitor ?c uuid bridgeName = Ok None) =
            (\<exists>s. field ovsIface ''error'' = VString s \<and> s \<noteq> [])"
    if "map_of (?c ''Interface'') uuid = Some ovsIface" for uuid bridgeName ovsIface
    using that by (simp add: fetchInterfaceLocked_Ok_None_iff ifHasError_iff)
  have built: "\<exists>ovsIface.
                 map_of (?c ''Interface'') uuid = Some ovsIface \<and>
                 \<not> (\<exists>s. field ovsIface ''error'' = VString s \<and> s \<noteq> []) \<and>
                 field ovsIface ''name'' = VString (if_Name iface)"
    if "fetchInterfaceLocked w monitor ?c uuid bridgeName = Ok (Some iface)"
    for uuid bridgeName iface
  proof -
    from fetchInterfaceLocked_Some [OF that] obtain ovsIface where
      "map_of (?c ''Interface'') uuid = Some ovsIface"
      and "\<not> ifHasError (field ovsIface ''error'')"
      and "field ovsIface ''name'' = VString (if_Name iface)"
      by auto
    then show ?thesis by (auto simp: ifHasError_iff)
  qed
  have D1: "\<exists>bridgeUUID ovsBri portUUID.
               map_of (?c ''Bridge'') bridgeUUID = Some ovsBri \<and>
               portUUID \<in> set (listUUID (field ovsBri ''ports'')) \<and>
               fetchPortLocked w monitor ?c portUUID (br_Name bridge) = Ok port"
    if "bridge \<in> set (Bridges (ai_OVSInfo agentInfo))" and "port \<in> set (Ports bridge)"
    for bridge port
    using getAgentInfo_port_from [OF assms that] by blast
  have D2: "\<exists>uuid ovsIface.
                 map_of (?c ''Interface'') uuid = Some ovsIface \<and>
                 \<not> (\<exists>s. field ovsIface ''error'' = VString s \<and> s \<noteq> []) \<and>
                 field ovsIface ''name'' = VString (if_Name iface) \<and>
                 fetchInterfaceLocked w monitor ?c uuid (br_Name bridge) = Ok (Some iface)"
    if "bridge \<in> set (Bridges (ai_OVSInfo agentInfo))" and "port \<in> set (Ports bridge)"
      and "iface \<in> set (Interfaces port)"
    for bridge port iface
  proof -
    from D1 [OF that(1,2)] obtain portUUID where
      "fetchPortLocked w monitor ?c portUUID (br_Name bridge) = Ok port" by blast
    from fetchPortLocked_from [OF this that(3)] obtain uuid where
      u: "fetchInterfaceLocked w monitor ?c uuid (br_Name bridge) = Ok (Some iface)" ..
    from built [OF u] u show ?thesis by blast
  qed
  have K: "\<exists>bridge \<in> set (Bridges (ai_OVSInfo agentInfo)). \<exists>port \<in> set (Ports bridge).
               field ovsBri ''name'' = VString (br_Name bridge) \<and>
               field ovsPort ''name'' = VString (port_Name port) \<and>
               fetchPortLocked w monitor ?c portUUID (br_Name bridge) = Ok port \<and>
               (if \<exists>s. field ovsIface ''error'' = VString s \<and> s \<noteq> []
                then fetchInterfaceLocked w monitor ?c uuid (br_Name bridge) = Ok None
                else \<exists>iface \<in> set (Interfaces port).
                       field ovsIface ''name'' = VString (if_Name iface) \<and>
                       fetchInterfaceLocked w monitor ?c uuid (br_Name bridge) = Ok (Some iface))"
    if rb: "map_of (?c ''Bridge'') bridgeUUID = Some ovsBri"
      and pu: "portUUID \<in> set (listUUID (field ovsBri ''ports''))"
      and rp: "map_of (?c ''Port'') portUUID = Some ovsPort"
      and iu: "uuid \<in> set (listUUID (field ovsPort ''interfaces''))"
      and ri: "map_of (?c ''Interface'') uuid = Some ovsIface"
    for bridgeUUID ovsBri portUUID ovsPort uuid ovsIface
  proof -
    from getAgentInfo_port_to [OF assms rb pu] obtain bridge port where
      b: "bridge \<in> set (Bridges (ai_OVSInfo agentInfo))"
      and p: "port \<in> set (Ports bridge)"
      and bn: "field ovsBri ''name'' = VString (br_Name bridge)"
      and fp: "fetchPortLocked w monitor ?c portUUID (br_Name bridge) = Ok port"
      by blast
    from fetchPortLocked_interfaces [OF fp] rp obtain rs where
      pn: "field ovsPort ''name'' = VString (port_Name port)"
      and m: "map (\<lambda>uuid. fetchInterfaceLocked w monitor ?c uuid (br_Name bridge))
                (listUUID (field ovsPort ''interfaces'')) = map Ok rs"
      and i: "Interfaces port = map the (filter (\<lambda>r. r \<noteq> None) rs)"
      by auto
    from map_Ok_forward [OF m iu] obtain r where
      r: "r \<in> set rs" and fr: "fetchInterfaceLocked w monitor ?c uuid (br_Name bridge) = Ok r"
      by blast
    have "if \<exists>s. field ovsIface ''error'' = VString s \<and> s \<noteq> []
          then fetchInterfaceLocked w monitor ?c uuid (br_Name bridge) = Ok None
          else \<exists>iface \<in> set (Interfaces port).
                 field ovsIface ''name'' = VString (if_Name iface) \<and>
                 fetchInterfaceLocked w monitor ?c uuid (br_Name bridge) = Ok (Some iface)"
    proof (cases "\<exists>s. field ovsIface ''error'' = VString s \<and> s \<noteq> []")
      case True
      with N [OF ri, of "br_Name bridge"] show ?thesis by simp
    next
      case False
      with N [OF ri, of "br_Name bridge"] fr have "r \<noteq> None" by auto
      then obtain iface where s: "r = Some iface" by (cases r) simp_all
      with r i have mem: "iface \<in> set (Interfaces port)" by force
      from fr s have u: "fetchInterfaceLocked w monitor ?c uuid (br_Name bridge) = Ok (Some iface)"
        by simp
      from built [OF u] ri have "field ovsIface ''name'' = VString (if_Name iface)" by auto
      with mem u False show ?thesis by auto
    qed
    with b p bn pn fp show ?thesis by blast
  qed
  show ?thesis
  proof (intro conjI allI impI ballI)
    fix portUUID bridgeName port
    assume "fetchPortLocked w monitor ?c portUUID bridgeName = Ok port"
    from P [OF this]
    show "\<exists>ovsPort rs.
               map_of (?c ''Port'') portUUID = Some ovsPort \<and>
               map (\<lambda>uuid. fetchInterfaceLocked w monitor ?c uuid bridgeName)
                   (listUUID (field ovsPort ''interfaces'')) = map Ok rs \<and>
               Interfaces port = map the (filter (\<lambda>r. r \<noteq> None) rs)" .
  next
    fix uuid bridgeName ovsIface
    assume "map_of (?c ''Interface'') uuid = Some ovsIface"
    from N [OF this]
    show "(fetchInterfaceLocked w monitor ?c uuid bridgeName = Ok None) =
            (\<exists>s. field ovsIface ''error'' = VString s \<and> s \<noteq> [])" .
  next
    fix bridge port
    assume "bridge \<in> set (Bridges (ai_OVSInfo agentInfo))" and "port \<in> set (Ports bridge)"
    from D1 [OF this]
    show "\<exists>bridgeUUID ovsBri portUUID.
               map_of (?c ''Bridge'') bridgeUUID = Some ovsBri \<and>
               portUUID \<in> set (listUUID (field ovsBri ''ports'')) \<and>
               fetchPortLocked w monitor ?c portUUID (br_Name bridge) = Ok port" .
  next
    fix bridge port iface
    assume "bridge \<in> set (Bridges (ai_OVSInfo agentInfo))" and "port \<in> set (Ports bridge)"
      and "iface \<in> set (Interfaces port)"
    from D2 [OF this]
    show "\<exists>uuid ovsIface.
                 map_of (?c ''Interface'') uuid = Some ovsIface \<and>
                 \<not> (\<exists>s. field ovsIface ''error'' = VString s \<and> s \<noteq> []) \<and>
                 field ovsIface ''name'' = VString (if_Name iface) \<and>
                 fetchInterfaceLocked w monitor ?c uuid (br_Name bridge) = Ok (Some iface)" .
  next
    fix bridgeUUID ovsBri portUUID ovsPort uuid ovsIface
    assume h: "map_of (?c ''Bridge'') bridgeUUID = Some ovsBri \<and>
            portUUID \<in> set (listUUID (field ovsBri ''ports'')) \<and>
            map_of (?c ''Port'') portUUID = Some ovsPort \<and>
            uuid \<in> set (listUUID (field ovsPort ''interfaces'')) \<and>
            map_of (?c ''Interface'') uuid = Some ovsIface"
    then have h1: "map_of (?c ''Bridge'') bridgeUUID = Some ovsBri"
      and h2: "portUUID \<in> set (listUUID (field ovsBri ''ports''))"
      and h3: "map_of (?c ''Port'') portUUID = Some ovsPort"
      and h4: "uuid \<in> set (listUUID (field ovsPort ''interfaces''))"
      and h5: "map_of (?c ''Interface'') uuid = Some ovsIface"
      by simp_all
    from K [OF h1 h2 h3 h4 h5]
    show "\<exists>bridge \<in> set (Bridges (ai_OVSInfo agentInfo)). \<exists>port \<in> set (Ports bridge).
               field ovsBri ''name'' = VString (br_Name bridge) \<and>
               field ovsPort ''name'' = VString (port_Name port) \<and>
               fetchPortLocked w monitor ?c portUUID (br_Name bridge) = Ok port \<and>
               (if \<exists>s. field ovsIface ''error'' = VString s \<and> s \<noteq> []
                then fetchInterfaceLocked w monitor ?c uuid (br_Name bridge) = Ok None
                else \<exists>iface \<in> set (Interfaces port).
                       field ovsIface ''name'' = VString (if_Name iface) \<and>
                       fetchInterfaceLocked w monitor ?c uuid (br_Name bridge) = Ok (Some iface))" .
  qed
qed

theorem interface_drop_on_error_witness:
  "getAgentInfo world0 monitor0 = Ok snapshot0 \<and>
   map_of (ovsdbMonitor monitor0 ''Bridge'') ''br-1'' = Some bridgeRow1 \<and>
   ''port-1'' \<in> set (listUUID (field bridgeRow1 ''ports'')) \<and>
   map_of (ovsdbMonitor monitor0 ''Port'') ''port-1'' = Some portRow1 \<and>
   listUUID (field portRow1 ''interfaces'') = [''if-1'', ''if-2'', ''if-3''] \<and>
   map_of (ovsdbMonitor monitor0 ''Interface'') ''if-3'' = Some ifaceRow3 \<and>
   field ifaceRow3 ''error'' = VString ''could not open network device'' \<and>
   map_of (ovsdbMonitor monitor0 ''Interface'') ''if-1'' = Some ifaceRow1 \<and>
   field ifaceRow1 ''error'' = OvsSet [] \<and>
   map Interfaces (concat (map Ports (Bridges (ai_OVSInfo snapshot0)))) = [[builtIface0]] \<and>
   if_Name builtIface0 = ''eth0'' \<and> field ifaceRow3 ''name'' = VString ''eth3'' \<and>
   (\<exists>bridge \<in> set (Bridges (ai_OVSInfo snapshot0)). \<exists>port \<in> set (Ports bridge).
      field bridgeRow1 ''name'' = VString (br_Name bridge) \<and>
      field portRow1 ''name'' = VString (port_Name port) \<and>
      fetchPortLocked world0 monitor0 (ovsdbMonitor monitor0) ''port-1'' (br_Name bridge) = Ok port \<and>
      fetchInterfaceLocked world0 monitor0 (ovsdbMonitor monitor0) ''if-3'' (br_Name bridge) = Ok None) \<and>
   (\<exists>bridge \<in> set (Bridges (ai_OVSInfo snapshot0)). \<exists>port \<in> set (Ports bridge).
      field bridgeRow1 ''name'' = VString (br_Name bridge) \<and>
      field portRow1 ''name'' = VString (port_Name port) \<and>
      fetchPortLocked world0 monitor0 (ovsdbMonitor monitor0) ''port-1'' (br_Name bridge) = Ok port \<and>
      (\<exists>iface \<in> set (Interfaces port).
         field ifaceRow1 ''name'' = VString (if_Name iface) \<and>
         fetchInterfaceLocked world0 monitor0 (ovsdbMonitor monitor0) ''if-1'' (br_Name bridge) =
           Ok (Some iface)))"
proof -
  have s: "getAgentInfo world0 monitor0 = Ok snapshot0"
    by code_simp
  have c: "ovsdbMonitor monitor0 = cache0"
    by (simp add: monitor0_def)
  have rb: "map_of (ovsdbMonitor monitor0 ''Bridge'') ''br-1'' = Some bridgeRow1"
    by (simp add: c cache0_def)
  have pu: "''port-1'' \<in> set (listUUID (field bridgeRow1 ''ports''))"
    by (simp add: bridgeRow1_def field_def)
  have rp: "map_of (ovsdbMonitor monitor0 ''Port'') ''port-1'' = Some portRow1"
    by (simp add: c cache0_def)
  have refs: "listUUID (field portRow1 ''interfaces'') = [''if-1'', ''if-2'', ''if-3'']"
    by (simp add: portRow1_def field_def)
  have r3: "map_of (ovsdbMonitor monitor0 ''Interface'') ''if-3'' = Some ifaceRow3"
    by (simp add: c cache0_def)
  have e3: "field ifaceRow3 ''error'' = VString ''could not open network device''"
    by (simp add: ifaceRow3_def field_def)
  have r1: "map_of (ovsdbMonitor monitor0 ''Interface'') ''if-1'' = Some ifaceRow1"
    by (simp add: c cache0_def)
  have e1: "field ifaceRow1 ''error'' = OvsSet []"
    by (simp add: ifaceRow1_def field_def)
  have l: "map Interfaces (concat (map Ports (Bridges (ai_OVSInfo snapshot0)))) = [[builtIface0]]"
    by (simp add: snapshot0_def)
  have n1: "if_Name builtIface0 = ''eth0''"
    by (simp add: builtIface0_def)
  have n3: "field ifaceRow3 ''name'' = VString ''eth3''"
    by (simp add: ifaceRow3_def field_def)
  have i3: "''if-3'' \<in> set (listUUID (field portRow1 ''interfaces''))"
    by (simp add: refs)
  have i1: "''if-1'' \<in> set (listUUID (field portRow1 ''interfaces''))"
    by (simp add: refs)
  note k = interface_drop_on_error [OF s, THEN conjunct2, THEN conjunct2, THEN conjunct2,
      rule_format]
  from k [of "''br-1''" bridgeRow1 "''port-1''" portRow1 "''if-3''" ifaceRow3] rb pu rp i3 r3 e3
  have k3: "\<exists>bridge \<in> set (Bridges (ai_OVSInfo snapshot0)). \<exists>port \<in> set (Ports bridge).
      field bridgeRow1 ''name'' = VString (br_Name bridge) \<and>
      field portRow1 ''name'' = VString (port_Name port) \<and>
      fetchPortLocked world0 monitor0 (ovsdbMonitor monitor0) ''port-1'' (br_Name bridge) = Ok port \<and>
      fetchInterfaceLocked world0 monitor0 (ovsdbMonitor monitor0) ''if-3'' (br_Name bridge) = Ok None"
    by simp
  from k [of "''br-1''" bridgeRow1 "''port-1''" portRow1 "''if-1''" ifaceRow1] rb pu rp i1 r1 e1
  have k1: "\<exists>bridge \<in> set (Bridges (ai_OVSInfo snapshot0)). \<exists>port \<in> set (Ports bridge).
      field bridgeRow1 ''name'' = VString (br_Name bridge) \<and>
      field portRow1 ''name'' = VString (port_Name port) \<and>
      fetchPortLocked world0 monitor0 (ovsdbMonitor monitor0) ''port-1'' (br_Name bridge) = Ok port \<and>
      (\<exists>iface \<in> set (Interfaces port).
         field ifaceRow1 ''name'' = VString (if_Name iface) \<and>
         fetchInterfaceLocked world0 monitor0 (ovsdbMonitor monitor0) ''if-1'' (br_Name bridge) =
           Ok (Some iface))"
    by simp
  from s rb pu rp refs r3 e3 r1 e1 l n1 n3 k3 k1 show ?thesis
    by (intro conjI)
qed

end
